theory Spec2Isabelle
  imports Complex_Main "HOL-Library.Sublist"
begin

section \<open>Errors raised by the modelled Python code\<close>

text \<open>
  Every exception the modelled functions can raise is a value of this type; a function
  that may raise returns \<open>error + 'a\<close> with \<open>Inl\<close> carrying the exception.
  \<open>Propagated\<close> stands for a \<open>BaseException\<close> that is not an \<open>Exception\<close>
  (KeyboardInterrupt, SystemExit), which an \<open>except Exception\<close> clause lets through.
\<close>

datatype error = ValueError | IndexError | KeyError | TypeError | ZeroDivisionError | Propagated

section \<open>Test fixtures (tests/conftest.py)\<close>

subsection \<open>requires_module\<close>

text \<open>
  What \<^verbatim>\<open>exec(call)\<close> does depends on the installed packages, so it is a parameter of the
  model: a function from the executed source text to its outcome. \<open>Raised msg\<close> is an
  instance of \<open>Exception\<close> whose \<open>str\<close> is \<open>msg\<close>; \<open>RaisedBase\<close> is any other
  \<open>BaseException\<close>. A test function is known by its \<open>__name__\<close>;
  \<^verbatim>\<open>pytest.mark.skipif(skip, reason=reason)(function)\<close> returns the function with the
  mark attached.
\<close>

datatype exec_outcome = Completed | Raised string | RaisedBase

record py_function =
  fn_name :: string

record marked_function =
  wrapped :: py_function
  skipif_condition :: bool
  skipif_reason :: string

definition skipif :: "bool \<Rightarrow> string \<Rightarrow> py_function \<Rightarrow> marked_function" where
  "skipif skip reason function =
     \<lparr>wrapped = function, skipif_condition = skip, skipif_reason = reason\<rparr>"

definition requires_module ::
  "(string \<Rightarrow> exec_outcome) \<Rightarrow> py_function \<Rightarrow> string \<Rightarrow> string option \<Rightarrow> error + marked_function"
where
  "requires_module exec function name call =
     (let call = (case call of None \<Rightarrow> ''import '' @ name | Some c \<Rightarrow> c);
          reason = ''Test '' @ fn_name function @ '' skipped, requires '' @ name @ ''.''
      in case exec call of
           Raised exc \<Rightarrow>
             (let reason = (if length exc > 0 \<and> exc \<noteq> ''No module named '' @ name
                            then reason @ '' Got exception ('' @ exc @ '')''
                            else reason)
              in Inr (skipif True reason function))
         | RaisedBase \<Rightarrow> Inl Propagated
         | Completed \<Rightarrow> Inr (skipif False reason function))"

subsection \<open>get_labels\<close>

text \<open>
  \<^verbatim>\<open>np.arange(n_classes).repeat(n_matrices // n_classes)\<close>.
  Python integers are unbounded, so both arguments are \<open>int\<close>. The floor division raises
  ZeroDivisionError for \<open>n_classes = 0\<close>; \<open>np.arange\<close> of a non-positive number is the
  empty array; \<open>repeat\<close> raises ValueError for a negative count. HOL's \<open>div\<close> on \<open>int\<close>
  rounds towards minus infinity, as Python's \<open>//\<close> does.
\<close>

definition np_arange :: "int \<Rightarrow> int list" where
  "np_arange n = map int [0..<nat n]"

definition np_repeat :: "int list \<Rightarrow> int \<Rightarrow> error + int list" where
  "np_repeat xs k = (if k < 0 then Inl ValueError else Inr (concat (map (replicate (nat k)) xs)))"

definition get_labels :: "int \<Rightarrow> int \<Rightarrow> error + int list" where
  "get_labels n_matrices n_classes =
     (if n_classes = 0 then Inl ZeroDivisionError
      else np_repeat (np_arange n_classes) (n_matrices div n_classes))"

section \<open>correlation_ratio (examples/*tutorial_quantum_svm_titanic_data.py)\<close>

text \<open>
  The numpy arrays are lists. Measurements are exact real numbers: the model leaves the
  rounding of binary floating point out. A category label may be missing (\<open>None\<close>, for
  pandas' NaN/None): the scripts pass columns of the raw table. Measurements are indexed
  by position, as a numpy array is, and as a pandas column with the default index is.
\<close>

subsection \<open>The library calls\<close>

text \<open>
  \<^verbatim>\<open>pd.factorize(values)\<close> returns \<open>(codes, uniques)\<close>: \<open>uniques\<close> holds the distinct
  non-missing values in order of first appearance, and each code is the position of its
  value in \<open>uniques\<close>, or \<open>-1\<close> for a missing value.
\<close>

definition present :: "'c option list \<Rightarrow> 'c list" where
  "present cs = map the (filter (\<lambda>c. c \<noteq> None) cs)"

definition first_appearance :: "'c list \<Rightarrow> 'c list" where
  "first_appearance xs = rev (remdups (rev xs))"

definition index_of :: "'c list \<Rightarrow> 'c \<Rightarrow> nat" where
  "index_of xs x = length (takeWhile (\<lambda>y. y \<noteq> x) xs)"

definition factorize :: "'c option list \<Rightarrow> int list \<times> 'c list" where
  "factorize values =
     (let uniques = first_appearance (present values)
      in (map (\<lambda>v. case v of None \<Rightarrow> - 1 | Some x \<Rightarrow> int (index_of uniques x)) values, uniques))"

text \<open>\<^verbatim>\<open>np.max\<close> raises ValueError on an empty array.\<close>

fun np_max :: "int list \<Rightarrow> error + int" where
  "np_max [] = Inl ValueError"
| "np_max (x # xs) = Inr (fold max xs x)"

text \<open>\<^verbatim>\<open>np.argwhere(fcat == i).flatten()\<close>: the positions holding code \<open>i\<close>, ascending.\<close>

definition argwhere_eq :: "int list \<Rightarrow> int \<Rightarrow> nat list" where
  "argwhere_eq fcat i = filter (\<lambda>j. fcat ! j = i) [0..<length fcat]"

text \<open>
  \<^verbatim>\<open>measurements[positions]\<close>: indexing with an array of positions raises IndexError when
  a position is out of bounds.
\<close>

definition fancy_index :: "real list \<Rightarrow> nat list \<Rightarrow> error + real list" where
  "fancy_index measurements positions =
     (if list_all (\<lambda>j. j < length measurements) positions
      then Inr (map (\<lambda>j. measurements ! j) positions)
      else Inl IndexError)"

text \<open>
  \<^verbatim>\<open>np.average\<close> of an empty array is NaN (with a warning); here it is \<open>0 / 0 = 0\<close>. The
  loop below never takes the average of an empty array, since every code in
  \<open>0 .. cat_num - 1\<close> is the code of some position.
\<close>

definition np_average :: "real list \<Rightarrow> real" where
  "np_average xs = sum_list xs / real (length xs)"

subsection \<open>The function\<close>

text \<open>
  The \<^verbatim>\<open>for i in range(0, cat_num)\<close> loop, over the remaining values of \<open>i\<close>, with the
  two arrays it fills as state.
\<close>

fun category_loop ::
  "int list \<Rightarrow> real list \<Rightarrow> nat list \<Rightarrow> real list \<times> real list \<Rightarrow> error + real list \<times> real list"
where
  "category_loop fcat measurements [] (y_avg_array, n_array) = Inr (y_avg_array, n_array)"
| "category_loop fcat measurements (i # rest) (y_avg_array, n_array) =
     (case fancy_index measurements (argwhere_eq fcat (int i)) of
        Inl e \<Rightarrow> Inl e
      | Inr cat_measures \<Rightarrow>
          category_loop fcat measurements rest
            (y_avg_array[i := np_average cat_measures],
             n_array[i := real (length cat_measures)]))"

text \<open>
  The body up to the two sums: \<open>(numerator, denominator)\<close>. When every label is missing,
  \<open>cat_num = 0\<close> and \<open>y_total_avg\<close> is \<open>0.0 / 0.0\<close>: NaN in numpy (a warning, no
  exception), \<open>0\<close> here; the numerator is then the empty sum in both, and the result of
  \<open>correlation_ratio\<close> is \<open>0.0\<close> in both.
\<close>

definition correlation_terms :: "'c option list \<Rightarrow> real list \<Rightarrow> error + real \<times> real" where
  "correlation_terms categories measurements =
     (let fcat = fst (factorize categories) in
      case np_max fcat of
        Inl e \<Rightarrow> Inl e
      | Inr m \<Rightarrow>
          (let cat_num = nat (m + 1) in
           case category_loop fcat measurements [0..<cat_num]
                  (replicate cat_num 0, replicate cat_num 0) of
             Inl e \<Rightarrow> Inl e
           | Inr (y_avg_array, n_array) \<Rightarrow>
               (let y_total_avg = sum_list (map2 (*) y_avg_array n_array) / sum_list n_array;
                    numerator =
                      sum_list (map2 (*) n_array (map (\<lambda>y. (y - y_total_avg)\<^sup>2) y_avg_array));
                    denominator = sum_list (map (\<lambda>x. (x - y_total_avg)\<^sup>2) measurements)
                in Inr (numerator, denominator))))"

definition correlation_ratio :: "'c option list \<Rightarrow> real list \<Rightarrow> error + real" where
  "correlation_ratio categories measurements =
     (case correlation_terms categories measurements of
        Inl e \<Rightarrow> Inl e
      | Inr (numerator, denominator) \<Rightarrow>
          Inr (if numerator = 0 then 0 else numerator / denominator))"

subsection \<open>The correlation ratio as the specification words it\<close>

text \<open>
  Partition the measurements by distinct category value; per category, the count and the
  mean; the count-weighted grand mean; the weighted between-group sum of squared
  deviations over the total sum of squared deviations about the grand mean.
\<close>

definition group_of :: "'c option list \<Rightarrow> real list \<Rightarrow> 'c \<Rightarrow> real list" where
  "group_of categories measurements c =
     map snd (filter (\<lambda>(l, x). l = Some c) (zip categories measurements))"

definition group_count :: "'c option list \<Rightarrow> real list \<Rightarrow> 'c \<Rightarrow> real" where
  "group_count categories measurements c = real (length (group_of categories measurements c))"

definition group_mean :: "'c option list \<Rightarrow> real list \<Rightarrow> 'c \<Rightarrow> real" where
  "group_mean categories measurements c =
     sum_list (group_of categories measurements c) / group_count categories measurements c"

definition grand_mean :: "'c option list \<Rightarrow> real list \<Rightarrow> real" where
  "grand_mean categories measurements =
     (\<Sum>c\<leftarrow>remdups (present categories).
        group_count categories measurements c * group_mean categories measurements c)
     / (\<Sum>c\<leftarrow>remdups (present categories). group_count categories measurements c)"

definition between_groups :: "'c option list \<Rightarrow> real list \<Rightarrow> real" where
  "between_groups categories measurements =
     (\<Sum>c\<leftarrow>remdups (present categories).
        group_count categories measurements c
        * (group_mean categories measurements c - grand_mean categories measurements)\<^sup>2)"

definition total_squares :: "'c option list \<Rightarrow> real list \<Rightarrow> real" where
  "total_squares categories measurements =
     (\<Sum>x\<leftarrow>measurements. (x - grand_mean categories measurements)\<^sup>2)"

text \<open>
  Every position that carries a label has a measurement: the condition under which no
  \<open>measurements[...]\<close> of the loop is out of bounds. It holds when both sequences have
  the same length.
\<close>

definition labels_in_range :: "'c option list \<Rightarrow> real list \<Rightarrow> bool" where
  "labels_in_range categories measurements =
     list_all (\<lambda>j. categories ! j = None) [length measurements..<length categories]"


section \<open>clean (examples/*tutorial_quantum_svm_titanic_data.py)\<close>

subsection \<open>Tables in a store\<close>

text \<open>
  A cell of a pandas column is missing (NaN or None), a number or a string. The arrays
  behind the columns live in a store, so that sharing between two tables can be
  expressed: an address is a position in the store, and a table (DataFrame) is its row
  count and its column labels, each bound to the address of the column's array.
\<close>

datatype cell = is_NaN: NaN | is_Num: Num real | is_Str: Str string

type_synonym column = "cell list"

type_synonym addr = nat

type_synonym store = "column list"

record frame =
  n_rows :: nat
  columns :: "(string \<times> addr) list"

definition load :: "store \<Rightarrow> addr \<Rightarrow> column" where
  "load st a = (if a < length st then st ! a else [])"

definition alloc :: "column \<Rightarrow> store \<Rightarrow> addr \<times> store" where
  "alloc col st = (length st, st @ [col])"

text \<open>What a table holds: its columns by value, and one column by its label.\<close>

definition table_of :: "store \<Rightarrow> frame \<Rightarrow> (string \<times> column) list" where
  "table_of st data = map (\<lambda>(label, a). (label, load st a)) (columns data)"

definition column_of :: "store \<Rightarrow> frame \<Rightarrow> string \<Rightarrow> column option" where
  "column_of st data label = map_option (load st) (map_of (columns data) label)"

text \<open>
  A well-formed table: the column labels are unique, every column's array is allocated
  and has one cell per row.
\<close>

definition wf_frame :: "store \<Rightarrow> frame \<Rightarrow> bool" where
  "wf_frame st data \<longleftrightarrow>
     distinct (map fst (columns data)) \<and>
     list_all (\<lambda>(label, a). a < length st \<and> length (st ! a) = n_rows data) (columns data)"

subsection \<open>The pandas calls\<close>

text \<open>
  Sequencing of calls that read and write the store and may raise: the store is threaded
  through, and the first exception ends the sequence.
\<close>

definition and_then ::
  "(store \<Rightarrow> (error + 'a) \<times> store) \<Rightarrow> ('a \<Rightarrow> store \<Rightarrow> (error + 'b) \<times> store)
   \<Rightarrow> store \<Rightarrow> (error + 'b) \<times> store" where
  "and_then f g st = (case f st of (Inl e, st') \<Rightarrow> (Inl e, st') | (Inr x, st') \<Rightarrow> g x st')"

definition return_value :: "'a \<Rightarrow> store \<Rightarrow> (error + 'a) \<times> store" where
  "return_value x st = (Inr x, st)"

text \<open>
  \<^verbatim>\<open>data.drop(labels, axis=1)\<close> raises KeyError when a label is not a column of the
  table; otherwise it returns a new table without those columns, whose arrays are copies.
\<close>

fun copy_columns :: "(string \<times> addr) list \<Rightarrow> store \<Rightarrow> (string \<times> addr) list \<times> store" where
  "copy_columns [] st = ([], st)"
| "copy_columns ((label, a) # cols) st =
     (let (a', st') = alloc (load st a) st;
          (cols', st'') = copy_columns cols st'
      in ((label, a') # cols', st''))"

definition frame_drop :: "string list \<Rightarrow> frame \<Rightarrow> store \<Rightarrow> (error + frame) \<times> store" where
  "frame_drop labels data st =
     (if list_all (\<lambda>label. label \<in> set (map fst (columns data))) labels
      then (let (cols, st') =
                  copy_columns (filter (\<lambda>(label, a). label \<notin> set labels) (columns data)) st
            in (Inr (data\<lparr>columns := cols\<rparr>), st'))
      else (Inl KeyError, st))"

text \<open>
  \<^verbatim>\<open>data[label]\<close> raises KeyError for an unknown label; otherwise it is the column, a
  view on the array the table holds (pandas before copy-on-write, for which the scripts
  were written: an in-place change of the column is a change of the table).
\<close>

definition getitem :: "frame \<Rightarrow> string \<Rightarrow> error + addr" where
  "getitem data label =
     (case map_of (columns data) label of None \<Rightarrow> Inl KeyError | Some a \<Rightarrow> Inr a)"

text \<open>
  \<^verbatim>\<open>Series.mean()\<close> skips missing cells; it is NaN when no cell is left, and raises
  TypeError on a string.
\<close>

definition numbers :: "column \<Rightarrow> real list" where
  "numbers col = map (\<lambda>c. case c of Num x \<Rightarrow> x | _ \<Rightarrow> 0) (filter is_Num col)"

definition mean_cell :: "column \<Rightarrow> cell" where
  "mean_cell col =
     (if numbers col = [] then NaN
      else Num (sum_list (numbers col) / real (length (numbers col))))"

definition series_mean :: "column \<Rightarrow> error + cell" where
  "series_mean col = (if list_ex is_Str col then Inl TypeError else Inr (mean_cell col))"

text \<open>
  \<^verbatim>\<open>Series.fillna(value, inplace=True)\<close> overwrites the missing cells of the array with
  the value; filling with NaN changes nothing.
\<close>

definition fillna :: "cell \<Rightarrow> column \<Rightarrow> column" where
  "fillna v col = map (\<lambda>c. if c = NaN then v else c) col"

definition fillna_inplace :: "addr \<Rightarrow> cell \<Rightarrow> store \<Rightarrow> store" where
  "fillna_inplace a v st = st[a := fillna v (load st a)]"

subsection \<open>The function\<close>

text \<open>\<^verbatim>\<open>data[label].fillna(value, inplace=True)\<close>\<close>

definition fillna_value :: "frame \<Rightarrow> string \<Rightarrow> cell \<Rightarrow> store \<Rightarrow> (error + unit) \<times> store" where
  "fillna_value data label v st =
     (case getitem data label of
        Inl e \<Rightarrow> (Inl e, st)
      | Inr a \<Rightarrow> (Inr (), fillna_inplace a v st))"

text \<open>\<^verbatim>\<open>data[label].fillna(data[label].mean(), inplace=True)\<close>\<close>

definition fillna_mean :: "frame \<Rightarrow> string \<Rightarrow> store \<Rightarrow> (error + unit) \<times> store" where
  "fillna_mean data label st =
     (case getitem data label of
        Inl e \<Rightarrow> (Inl e, st)
      | Inr a \<Rightarrow>
          (case series_mean (load st a) of
             Inl e \<Rightarrow> (Inl e, st)
           | Inr m \<Rightarrow> (Inr (), fillna_inplace a m st)))"

definition droppable_columns :: "string list" where
  "droppable_columns = [''Name'', ''Ticket'', ''Cabin'']"

definition clean :: "frame \<Rightarrow> store \<Rightarrow> (error + frame) \<times> store" where
  "clean data =
     and_then (frame_drop droppable_columns data) (\<lambda>data.
     and_then (fillna_mean data ''Age'') (\<lambda>_.
     and_then (fillna_value data ''Embarked'' (Str ''U'')) (\<lambda>_.
     and_then (fillna_value data ''SibSp'' (Num 0)) (\<lambda>_.
     and_then (fillna_value data ''Parch'' (Num 0)) (\<lambda>_.
     and_then (fillna_mean data ''Fare'') (\<lambda>_.
     return_value data))))))"

text \<open>
  Frame conditions for the proofs: a store differs from another at most at the
  addresses in \<open>A\<close>.
\<close>

definition only_changes :: "addr set \<Rightarrow> store \<Rightarrow> store \<Rightarrow> bool" where
  "only_changes A st st' \<longleftrightarrow>
     length st' = length st \<and> (\<forall>a<length st. a \<notin> A \<longrightarrow> st' ! a = st ! a)"

text \<open>
  For the proofs: a table whose columns have unique labels and arrays of their own, all
  allocated; and the change of one column of a table given by value.
\<close>

definition separate_columns :: "store \<Rightarrow> frame \<Rightarrow> bool" where
  "separate_columns st data \<longleftrightarrow>
     distinct (map fst (columns data)) \<and> distinct (map snd (columns data)) \<and>
     list_all (\<lambda>(label, a). a < length st) (columns data)"

definition map_column ::
  "string \<Rightarrow> (column \<Rightarrow> column) \<Rightarrow> (string \<times> column) list \<Rightarrow> (string \<times> column) list" where
  "map_column label f tbl = map (\<lambda>(l, col). (l, if l = label then f col else col)) tbl"

text \<open>A column keeps its length and every cell that was not missing.\<close>

definition keeps_present :: "column \<Rightarrow> column \<Rightarrow> bool" where
  "keeps_present col col' \<longleftrightarrow>
     length col' = length col \<and> (\<forall>i<length col. col ! i \<noteq> NaN \<longrightarrow> col' ! i = col ! i)"

subsection \<open>A sample table\<close>

text \<open>
  Two passengers, with the columns of the Titanic table that \<open>clean\<close> reads and one it
  leaves alone; each column that \<open>clean\<close> fills has a missing cell.
\<close>

definition sample_store :: store where
  "sample_store =
     [[Str ''Braund'', Str ''Cumings''], [Str ''A5'', NaN], [NaN, Str ''C85''],
      [Num 22, NaN], [NaN, Str ''C''], [Num 1, NaN], [NaN, Num 0], [NaN, Num 71],
      [Num 0, Num 1]]"

definition sample_table :: frame where
  "sample_table =
     \<lparr>n_rows = 2,
      columns = [(''Name'', 0), (''Ticket'', 1), (''Cabin'', 2), (''Age'', 3),
                 (''Embarked'', 4), (''SibSp'', 5), (''Parch'', 6), (''Fare'', 7),
                 (''Survived'', 8)]\<rparr>"

definition cleaned_table :: frame where
  "cleaned_table =
     \<lparr>n_rows = 2,
      columns = [(''Age'', 9), (''Embarked'', 10), (''SibSp'', 11), (''Parch'', 12),
                 (''Fare'', 13), (''Survived'', 14)]\<rparr>"

section \<open>correlation_ratio in binary64 arithmetic\<close>

subsection \<open>IEEE 754 binary64 numbers\<close>

text \<open>
  numpy computes with float64. A float64 is a finite number (a rational that binary64
  represents), an infinity or a not-a-number. Zero has no sign here: the function
  below never divides by a negative zero, since both its divisors are sums of
  non-negative terms. Every operation returns the exact result rounded to the nearest
  representable number, ties to the even significand, and an infinity on overflow.
\<close>

datatype f64 = Fin rat | PosInf | NegInf | NotANumber

definition pow2 :: "int \<Rightarrow> rat" where
  "pow2 e = (if 0 \<le> e then 2 ^ nat e else 1 / 2 ^ nat (- e))"

text \<open>The number of binary digits of a positive integer.\<close>

function bit_length :: "int \<Rightarrow> int" where
  "bit_length n = (if n \<le> 0 then 0 else 1 + bit_length (n div 2))"
  by pat_completeness auto
termination
  by (relation "measure nat") auto

text \<open>\<open>exponent_of x\<close> is the integer \<open>e\<close> with \<open>2 ^ e \<le> |x| < 2 ^ (e + 1)\<close>, for \<open>x \<noteq> 0\<close>.\<close>

definition exponent_of :: "rat \<Rightarrow> int" where
  "exponent_of x =
     (let (p, q) = quotient_of \<bar>x\<bar>;
          d = bit_length p - bit_length q
      in if pow2 d \<le> \<bar>x\<bar> then d else d - 1)"

text \<open>Rounding to the nearest integer, ties to even.\<close>

definition round_half_even :: "rat \<Rightarrow> int" where
  "round_half_even y =
     (let f = \<lfloor>y\<rfloor>; r = y - of_int f
      in if r < 1 / 2 then f
         else if 1 / 2 < r then f + 1
         else if even f then f else f + 1)"

text \<open>
  Rounding a rational to binary64: 53 significant bits, the spacing of the subnormal
  numbers below \<open>2 ^ - 1022\<close>, an infinity when the rounded number reaches \<open>2 ^ 1024\<close>
  (which it cannot below \<open>2 ^ 1023\<close>).
\<close>

definition round_f64 :: "rat \<Rightarrow> f64" where
  "round_f64 x =
     (if x = 0 then Fin 0
      else (let e = exponent_of x;
                ulp = pow2 (max (e - 52) (- 1074));
                r = of_int (round_half_even (x / ulp)) * ulp
            in if e < 1023 then Fin r
               else if pow2 1024 \<le> \<bar>r\<bar> then (if 0 < x then PosInf else NegInf)
               else Fin r))"

definition f64_of_nat :: "nat \<Rightarrow> f64" where
  "f64_of_nat n = round_f64 (of_nat n)"

fun fneg :: "f64 \<Rightarrow> f64" where
  "fneg (Fin x) = Fin (- x)"
| "fneg PosInf = NegInf"
| "fneg NegInf = PosInf"
| "fneg NotANumber = NotANumber"

fun fadd :: "f64 \<Rightarrow> f64 \<Rightarrow> f64" where
  "fadd (Fin x) (Fin y) = round_f64 (x + y)"
| "fadd NotANumber _ = NotANumber"
| "fadd _ NotANumber = NotANumber"
| "fadd PosInf NegInf = NotANumber"
| "fadd NegInf PosInf = NotANumber"
| "fadd PosInf _ = PosInf"
| "fadd NegInf _ = NegInf"
| "fadd _ PosInf = PosInf"
| "fadd _ NegInf = NegInf"

definition fsub :: "f64 \<Rightarrow> f64 \<Rightarrow> f64" where
  "fsub x y = fadd x (fneg y)"

text \<open>The sign of a number: \<open>1\<close>, \<open>0\<close> or \<open>- 1\<close>; not-a-number has none.\<close>

fun fsign :: "f64 \<Rightarrow> int" where
  "fsign (Fin x) = (if 0 < x then 1 else if x < 0 then - 1 else 0)"
| "fsign PosInf = 1"
| "fsign NegInf = - 1"
| "fsign NotANumber = 0"

definition signed_inf :: "int \<Rightarrow> f64" where
  "signed_inf s = (if 0 < s then PosInf else NegInf)"

fun fmul :: "f64 \<Rightarrow> f64 \<Rightarrow> f64" where
  "fmul (Fin x) (Fin y) = round_f64 (x * y)"
| "fmul NotANumber _ = NotANumber"
| "fmul _ NotANumber = NotANumber"
| "fmul x y =
     (if fsign x = 0 \<or> fsign y = 0 then NotANumber else signed_inf (fsign x * fsign y))"

text \<open>
  Division: \<open>0 / 0\<close> and \<open>inf / inf\<close> are not-a-number, a non-zero number over zero is
  an infinity (numpy warns and does not raise).
\<close>

fun fdiv :: "f64 \<Rightarrow> f64 \<Rightarrow> f64" where
  "fdiv NotANumber _ = NotANumber"
| "fdiv _ NotANumber = NotANumber"
| "fdiv (Fin x) (Fin y) =
     (if y = 0 then (if x = 0 then NotANumber else signed_inf (if 0 < x then 1 else - 1))
      else round_f64 (x / y))"
| "fdiv (Fin x) _ = Fin 0"
| "fdiv x (Fin y) = signed_inf (fsign x * (if y < 0 then - 1 else 1))"
| "fdiv _ _ = NotANumber"

subsection \<open>Sums\<close>

text \<open>
  \<^verbatim>\<open>np.sum\<close> of a float64 array adds in the order of numpy's pairwise summation: from
  left to right below eight numbers; with eight running sums, combined as a tree, up to
  128 numbers; and by halves (the first a multiple of eight long) above.
\<close>

fun seq_sum :: "f64 \<Rightarrow> f64 list \<Rightarrow> f64" where
  "seq_sum res [] = res"
| "seq_sum res (x # xs) = seq_sum (fadd res x) xs"

function lanes_loop :: "f64 list \<Rightarrow> f64 list \<Rightarrow> f64 list" where
  "lanes_loop r body =
     (if length body < 8 then r
      else lanes_loop (map2 fadd r (take 8 body)) (drop 8 body))"
  by pat_completeness auto
termination
  by (relation "measure (\<lambda>(r, body). length body)") auto

definition block_sum :: "f64 list \<Rightarrow> f64" where
  "block_sum a =
     (let n = length a;
          m = n - n mod 8;
          r = lanes_loop (take 8 a) (take (m - 8) (drop 8 a));
          res = fadd (fadd (fadd (r ! 0) (r ! 1)) (fadd (r ! 2) (r ! 3)))
                     (fadd (fadd (r ! 4) (r ! 5)) (fadd (r ! 6) (r ! 7)))
      in seq_sum res (drop m a))"

function pairwise_sum :: "f64 list \<Rightarrow> f64" where
  "pairwise_sum a =
     (if length a < 8 then seq_sum (Fin 0) a
      else if length a \<le> 128 then block_sum a
      else fadd (pairwise_sum (take (length a div 2 - (length a div 2) mod 8) a))
                (pairwise_sum (drop (length a div 2 - (length a div 2) mod 8) a)))"
  by pat_completeness auto
termination
  by (relation "measure length") auto

definition np_sum_f64 :: "f64 list \<Rightarrow> f64" where
  "np_sum_f64 a = fadd (Fin 0) (pairwise_sum a)"

text \<open>\<^verbatim>\<open>np.average(a)\<close> is \<open>a.mean()\<close>: the sum over the count; not-a-number when empty.\<close>

definition np_average_f64 :: "f64 list \<Rightarrow> f64" where
  "np_average_f64 a = fdiv (np_sum_f64 a) (f64_of_nat (length a))"

text \<open>\<^verbatim>\<open>np.power(x, 2)\<close> is the rounded product of \<open>x\<close> with itself.\<close>

definition fsquare :: "f64 \<Rightarrow> f64" where
  "fsquare x = fmul x x"

subsection \<open>The function\<close>

text \<open>
  The same body as above, line by line, with every arithmetic operation in binary64.
  The labels are factorized as before.
\<close>

definition fancy_index_f64 :: "f64 list \<Rightarrow> nat list \<Rightarrow> error + f64 list" where
  "fancy_index_f64 measurements positions =
     (if list_all (\<lambda>j. j < length measurements) positions
      then Inr (map (\<lambda>j. measurements ! j) positions)
      else Inl IndexError)"

fun category_loop_f64 ::
  "int list \<Rightarrow> f64 list \<Rightarrow> nat list \<Rightarrow> f64 list \<times> f64 list \<Rightarrow> error + f64 list \<times> f64 list"
where
  "category_loop_f64 fcat measurements [] (y_avg_array, n_array) = Inr (y_avg_array, n_array)"
| "category_loop_f64 fcat measurements (i # rest) (y_avg_array, n_array) =
     (case fancy_index_f64 measurements (argwhere_eq fcat (int i)) of
        Inl e \<Rightarrow> Inl e
      | Inr cat_measures \<Rightarrow>
          category_loop_f64 fcat measurements rest
            (y_avg_array[i := np_average_f64 cat_measures],
             n_array[i := f64_of_nat (length cat_measures)]))"

definition correlation_terms_f64 :: "'c option list \<Rightarrow> f64 list \<Rightarrow> error + f64 \<times> f64" where
  "correlation_terms_f64 categories measurements =
     (let fcat = fst (factorize categories) in
      case np_max fcat of
        Inl e \<Rightarrow> Inl e
      | Inr m \<Rightarrow>
          (let cat_num = nat (m + 1) in
           case category_loop_f64 fcat measurements [0..<cat_num]
                  (replicate cat_num (Fin 0), replicate cat_num (Fin 0)) of
             Inl e \<Rightarrow> Inl e
           | Inr (y_avg_array, n_array) \<Rightarrow>
               (let y_total_avg =
                      fdiv (np_sum_f64 (map2 fmul y_avg_array n_array)) (np_sum_f64 n_array);
                    numerator =
                      np_sum_f64
                        (map2 fmul n_array (map (\<lambda>y. fsquare (fsub y y_total_avg)) y_avg_array));
                    denominator =
                      np_sum_f64 (map (\<lambda>x. fsquare (fsub x y_total_avg)) measurements)
                in Inr (numerator, denominator))))"

text \<open>\<^verbatim>\<open>numerator == 0\<close> is false for not-a-number.\<close>

definition correlation_ratio_f64 :: "'c option list \<Rightarrow> f64 list \<Rightarrow> error + f64" where
  "correlation_ratio_f64 categories measurements =
     (case correlation_terms_f64 categories measurements of
        Inl e \<Rightarrow> Inl e
      | Inr (numerator, denominator) \<Rightarrow>
          Inr (if numerator = Fin 0 then Fin 0 else fdiv numerator denominator))"

section \<open>Properties of the test fixtures\<close>

subsection \<open>requires_module\<close>

text \<open>
  C8. Unless the executed text raises something that is not an \<open>Exception\<close> (which
  \<^verbatim>\<open>except Exception\<close> does not catch, so the decorator itself fails),
  \<open>requires_module\<close> returns the decorated function with a skipif mark whose condition is
  true exactly when executing the import expression raised, and whose reason starts with
  the sentence naming the test function and the required dependency.
\<close>

theorem requires_module_skips:
  assumes "exec (case call of None \<Rightarrow> ''import '' @ name | Some c \<Rightarrow> c) \<noteq> RaisedBase"
  shows "\<exists>t. requires_module exec func name call = Inr t
           \<and> wrapped t = func
           \<and> (skipif_condition t \<longleftrightarrow>
                (\<exists>exc. exec (case call of None \<Rightarrow> ''import '' @ name | Some c \<Rightarrow> c) = Raised exc))
           \<and> prefix (''Test '' @ fn_name func @ '' skipped, requires '' @ name @ ''.'')
                (skipif_reason t)"
proof (cases "exec (case call of None \<Rightarrow> ''import '' @ name | Some c \<Rightarrow> c)")
  case Completed
  then show ?thesis
    by (simp add: requires_module_def skipif_def)
next
  case (Raised exc)
  then show ?thesis
    by (simp add: requires_module_def skipif_def Let_def)
next
  case RaisedBase
  with assms show ?thesis by simp
qed

theorem requires_module_skips_witness:
  "requires_module (\<lambda>src. if src = ''import seaborn'' then Raised ''No module named 'seaborn' '' else Completed)
       \<lparr>fn_name = ''test_plot''\<rparr> ''seaborn'' None
     = Inr \<lparr>wrapped = \<lparr>fn_name = ''test_plot''\<rparr>, skipif_condition = True,
            skipif_reason = ''Test test_plot skipped, requires seaborn. Got exception (No module named 'seaborn' )''\<rparr>
   \<and> requires_module (\<lambda>src. Completed) \<lparr>fn_name = ''test_plot''\<rparr> ''seaborn'' None
     = Inr \<lparr>wrapped = \<lparr>fn_name = ''test_plot''\<rparr>, skipif_condition = False,
            skipif_reason = ''Test test_plot skipped, requires seaborn.''\<rparr>"
  using requires_module_skips[where exec = "\<lambda>src. if src = ''import seaborn'' then Raised ''No module named 'seaborn' '' else Completed"
      and call = None and name = "''seaborn''" and func = "\<lparr>fn_name = ''test_plot''\<rparr>"]
  by (simp add: requires_module_def skipif_def)

subsection \<open>get_labels\<close>

lemma length_concat_replicate:
  "length (concat (map (replicate k) xs)) = k * length xs"
  by (induction xs) auto

lemma sorted_concat_replicate:
  "sorted xs \<Longrightarrow> sorted (concat (map (replicate k) xs))"
  by (induction xs) (auto simp: sorted_append)

lemma count_list_replicate:
  "count_list (replicate k x) c = (if x = c then k else 0)"
  by (induction k) auto

lemma count_list_concat_replicate:
  "count_list (concat (map (replicate k) xs)) c = k * count_list xs c"
  by (induction xs) (auto simp: count_list_replicate)

lemma count_list_np_arange:
  "count_list (np_arange n) c = (if 0 \<le> c \<and> c < n then 1 else 0)"
proof -
  have "count_list (map int [0..<m]) c = (if 0 \<le> c \<and> c < int m then 1 else 0)" for m
    by (induction m) auto
  from this[of "nat n"] show ?thesis
    by (auto simp: np_arange_def)
qed

lemma length_np_arange: "length (np_arange n) = nat n"
  by (simp add: np_arange_def)

lemma sorted_np_arange: "sorted (np_arange n)"
  by (simp add: np_arange_def sorted_map)

text \<open>
  C9. For positive \<open>n_matrices\<close> and \<open>n_classes\<close> the fixture returns an array of
  \<open>n_classes * (n_matrices // n_classes)\<close> labels, which is \<open>n_matrices\<close> labels exactly
  when \<open>n_classes\<close> divides \<open>n_matrices\<close>; the array is non-decreasing and holds every
  label \<open>0 .. n_classes - 1\<close> exactly \<open>n_matrices // n_classes\<close> times and nothing else.
\<close>

theorem get_labels_shape:
  assumes "0 < n_matrices" and "0 < n_classes"
  shows "\<exists>labels. get_labels n_matrices n_classes = Inr labels
           \<and> int (length labels) = n_classes * (n_matrices div n_classes)
           \<and> (int (length labels) = n_matrices \<longleftrightarrow> n_classes dvd n_matrices)
           \<and> sorted labels
           \<and> (\<forall>c. int (count_list labels c) =
                 (if 0 \<le> c \<and> c < n_classes then n_matrices div n_classes else 0))"
proof -
  define k where "k = n_matrices div n_classes"
  define labels where "labels = concat (map (replicate (nat k)) (np_arange n_classes))"
  have k0: "0 \<le> k" using assms by (simp add: k_def pos_imp_zdiv_nonneg_iff)
  have r: "get_labels n_matrices n_classes = Inr labels"
    using assms k0 by (simp add: get_labels_def np_repeat_def labels_def k_def)
  have len: "int (length labels) = n_classes * k"
    using assms k0 by (simp add: labels_def length_concat_replicate length_np_arange)
  have dv: "n_classes * k = n_matrices \<longleftrightarrow> n_classes dvd n_matrices"
    unfolding k_def using assms by (metis dvd_mult_div_cancel dvd_triv_left)
  have srt: "sorted labels"
    unfolding labels_def by (rule sorted_concat_replicate[OF sorted_np_arange])
  have cnt: "int (count_list labels c) = (if 0 \<le> c \<and> c < n_classes then k else 0)" for c
    using k0 by (simp add: labels_def count_list_concat_replicate count_list_np_arange)
  show ?thesis
    using r len dv srt cnt unfolding k_def by auto
qed

theorem get_labels_shape_witness:
  "get_labels 7 3 = Inr [0, 0, 1, 1, 2, 2] \<and> 3 * (7 div 3) = (6::int) \<and> \<not> (3::int) dvd 7"
proof -
  have "get_labels 7 3 = Inr [0, 0, 1, 1, 2, 2]"
    by code_simp
  with get_labels_shape[of 7 3] show ?thesis
    by simp
qed

section \<open>Properties of correlation_ratio\<close>

subsection \<open>factorize and the number of categories\<close>

lemma set_present: "set (present cs) = {x. Some x \<in> set cs}"
  by (force simp: present_def image_iff)

lemma distinct_first_appearance: "distinct (first_appearance xs)"
  by (simp add: first_appearance_def)

lemma set_first_appearance: "set (first_appearance xs) = set xs"
  by (simp add: first_appearance_def)

lemma index_of_less: "x \<in> set xs \<Longrightarrow> index_of xs x < length xs"
  unfolding index_of_def by (induction xs) auto

lemma nth_index_of: "x \<in> set xs \<Longrightarrow> xs ! index_of xs x = x"
  unfolding index_of_def by (induction xs) auto

lemma index_of_nth: "distinct xs \<Longrightarrow> i < length xs \<Longrightarrow> index_of xs (xs ! i) = i"
  by (metis index_of_less nth_index_of nth_eq_iff_index_eq nth_mem)

lemma length_factorize: "length (fst (factorize cs)) = length cs"
  by (simp add: factorize_def Let_def)

lemma snd_factorize: "snd (factorize cs) = first_appearance (present cs)"
  by (simp add: factorize_def Let_def)

lemma nth_factorize:
  "j < length cs \<Longrightarrow>
   fst (factorize cs) ! j =
     (case cs ! j of None \<Rightarrow> - 1 | Some x \<Rightarrow> int (index_of (snd (factorize cs)) x))"
  by (simp add: factorize_def Let_def split: option.splits)

lemma label_in_uniques:
  assumes "j < length cs" and "cs ! j = Some x"
  shows "x \<in> set (snd (factorize cs))"
proof -
  have "Some x \<in> set cs"
    using assms by (metis nth_mem)
  then show ?thesis
    by (simp add: snd_factorize set_first_appearance set_present)
qed

lemma code_eq_iff:
  assumes "j < length cs" and "i < length (snd (factorize cs))"
  shows "fst (factorize cs) ! j = int i \<longleftrightarrow> cs ! j = Some (snd (factorize cs) ! i)"
proof (cases "cs ! j")
  case None
  then show ?thesis using assms by (simp add: nth_factorize)
next
  case (Some x)
  let ?u = "snd (factorize cs)"
  have "x \<in> set ?u"
    using Some assms(1) by (rule label_in_uniques[rotated])
  moreover have "distinct ?u"
    by (simp add: snd_factorize distinct_first_appearance)
  ultimately show ?thesis
    using Some assms by (auto simp: nth_factorize nth_index_of index_of_nth)
qed

lemma argwhere_eq_factorize:
  assumes "i < length (snd (factorize cs))"
  shows "argwhere_eq (fst (factorize cs)) (int i) =
         filter (\<lambda>j. cs ! j = Some (snd (factorize cs) ! i)) [0..<length cs]"
  unfolding argwhere_eq_def length_factorize
  by (rule filter_cong) (use assms in \<open>auto simp: code_eq_iff\<close>)

lemma np_max_factorize:
  assumes "cs \<noteq> []"
  shows "np_max (fst (factorize cs)) = Inr (int (length (snd (factorize cs))) - 1)"
proof -
  let ?codes = "fst (factorize cs)" and ?u = "snd (factorize cs)"
  have ne: "?codes \<noteq> []"
    using assms length_factorize[of cs] by auto
  then obtain c rest where cr: "?codes = c # rest"
    by (cases ?codes) auto
  have upper: "c' \<le> int (length ?u) - 1" if "c' \<in> set ?codes" for c'
  proof -
    from that obtain j where j: "j < length cs" "c' = ?codes ! j"
      by (auto simp: in_set_conv_nth length_factorize)
    show ?thesis
    proof (cases "cs ! j")
      case None
      then show ?thesis using j by (simp add: nth_factorize)
    next
      case (Some x)
      then have "x \<in> set ?u"
        using j(1) by (rule label_in_uniques[rotated])
      then show ?thesis
        using Some j index_of_less[of x ?u] by (simp add: nth_factorize)
    qed
  qed
  have attained: "int (length ?u) - 1 \<in> set ?codes"
  proof (cases "?u = []")
    case True
    have "cs ! 0 = None"
    proof (cases "cs ! 0")
      case (Some x)
      with assms have "x \<in> set ?u"
        by (intro label_in_uniques[of 0]) auto
      with True show ?thesis by simp
    qed simp
    then have "?codes ! 0 = - 1"
      using assms by (simp add: nth_factorize)
    then show ?thesis
      using True ne by (metis diff_0 length_greater_0_conv list.size(3) nth_mem of_nat_0)
  next
    case False
    define i where "i = length ?u - 1"
    have i: "i < length ?u" using False by (simp add: i_def)
    then have "?u ! i \<in> set (present cs)"
      by (metis nth_mem set_first_appearance snd_factorize)
    then obtain j where j: "j < length cs" "cs ! j = Some (?u ! i)"
      by (auto simp: set_present in_set_conv_nth)
    then have "?codes ! j = int i"
      using i by (simp add: code_eq_iff)
    then show ?thesis
      using j(1) i by (metis i_def length_factorize nth_mem of_nat_diff One_nat_def
          Suc_leI length_greater_0_conv False of_nat_1)
  qed
  have "fold max rest c = Max (set (c # rest))"
    by (rule Max.set_eq_fold[symmetric])
  also have "\<dots> = int (length ?u) - 1"
    using upper attained by (intro Max_eqI) (auto simp: cr)
  finally show ?thesis
    by (simp add: cr)
qed

subsection \<open>The loop over the categories\<close>

lemma category_loop_ok:
  assumes "\<forall>i\<in>set is. list_all (\<lambda>j. j < length ms) (argwhere_eq fcat (int i))"
  shows "category_loop fcat ms is (ya, na) =
         Inr (fold (\<lambda>i a. a[i := np_average (map (\<lambda>j. ms ! j) (argwhere_eq fcat (int i)))]) is ya,
              fold (\<lambda>i a. a[i := real (length (argwhere_eq fcat (int i)))]) is na)"
  using assms by (induction "is" arbitrary: ya na) (simp_all add: fancy_index_def)

lemma category_loop_fail:
  assumes "\<exists>i\<in>set is. \<not> list_all (\<lambda>j. j < length ms) (argwhere_eq fcat (int i))"
  shows "category_loop fcat ms is (ya, na) = Inl IndexError"
  using assms by (induction "is" arbitrary: ya na) (auto simp: fancy_index_def)

lemma length_fold_update: "length (fold (\<lambda>i a. a[i := f i]) is a) = length a"
  by (induction "is" arbitrary: a) simp_all

lemma nth_fold_update:
  "j < length a \<Longrightarrow> fold (\<lambda>i a. a[i := f i]) is a ! j = (if j \<in> set is then f j else a ! j)"
  by (induction "is" arbitrary: a) (auto simp: nth_list_update)

lemma fold_update_upt: "fold (\<lambda>i a. a[i := f i]) [0..<k] (replicate k z) = map f [0..<k]"
  by (rule nth_equalityI) (simp_all add: length_fold_update nth_fold_update)

lemma map_nth_upt: "map (\<lambda>i. f (xs ! i)) [0..<length xs] = map f xs"
  by (rule nth_equalityI) simp_all

subsection \<open>The groups\<close>

lemma labels_in_range_iff:
  "labels_in_range cs ms \<longleftrightarrow> (\<forall>j<length cs. cs ! j \<noteq> None \<longrightarrow> j < length ms)"
proof
  assume a: "labels_in_range cs ms"
  show "\<forall>j<length cs. cs ! j \<noteq> None \<longrightarrow> j < length ms"
  proof (intro allI impI)
    fix j assume j: "j < length cs" "cs ! j \<noteq> None"
    show "j < length ms"
    proof (rule ccontr)
      assume "\<not> j < length ms"
      with j(1) have "j \<in> set [length ms..<length cs]" by simp
      with a have "cs ! j = None"
        unfolding labels_in_range_def list_all_iff by blast
      with j(2) show False by simp
    qed
  qed
next
  assume b: "\<forall>j<length cs. cs ! j \<noteq> None \<longrightarrow> j < length ms"
  show "labels_in_range cs ms"
    unfolding labels_in_range_def list_all_iff
  proof
    fix j assume "j \<in> set [length ms..<length cs]"
    then have "j < length cs" "\<not> j < length ms" by simp_all
    with b show "cs ! j = None" by blast
  qed
qed

lemma group_of_positions:
  assumes "labels_in_range cs ms"
  shows "map (\<lambda>j. ms ! j) (filter (\<lambda>j. cs ! j = Some c) [0..<length cs]) = group_of cs ms c"
proof -
  let ?n = "min (length cs) (length ms)"
  have z: "zip cs ms = map (\<lambda>j. (cs ! j, ms ! j)) [0..<?n]"
    by (rule nth_equalityI) simp_all
  have "filter (\<lambda>j. cs ! j = Some c) [0..<length cs] = filter (\<lambda>j. cs ! j = Some c) [0..<?n]"
  proof -
    have "[0..<length cs] = [0..<?n] @ [?n..<length cs]"
      by (metis min.cobounded1 upt_add_eq_append le_add_diff_inverse zero_le)
    moreover have "filter (\<lambda>j. cs ! j = Some c) [?n..<length cs] = []"
      unfolding filter_empty_conv
    proof
      fix j assume "j \<in> set [?n..<length cs]"
      then have "j < length cs" "\<not> j < length ms" by auto
      with assms have "cs ! j = None"
        unfolding labels_in_range_iff by blast
      then show "cs ! j \<noteq> Some c" by simp
    qed
    ultimately show ?thesis by simp
  qed
  then show ?thesis
    by (simp add: group_of_def z filter_map comp_def)
qed


lemma sum_list_uniques:
  fixes f :: "'c \<Rightarrow> real"
  shows "sum_list (map f (snd (factorize cs))) = sum_list (map f (remdups (present cs)))"
  by (simp add: sum_list_distinct_conv_sum_set snd_factorize distinct_first_appearance
      set_first_appearance)

subsection \<open>The loop computes the sums of the specification\<close>

lemma np_average_group:
  "np_average (group_of cs ms c) = group_mean cs ms c"
  by (simp add: np_average_def group_mean_def group_count_def)

lemma loop_in_range_iff:
  assumes "cs \<noteq> []"
  shows "(\<forall>i\<in>set [0..<length (snd (factorize cs))].
            list_all (\<lambda>j. j < length ms) (argwhere_eq (fst (factorize cs)) (int i)))
         \<longleftrightarrow> labels_in_range cs ms"
proof
  assume a: "\<forall>i\<in>set [0..<length (snd (factorize cs))].
            list_all (\<lambda>j. j < length ms) (argwhere_eq (fst (factorize cs)) (int i))"
  show "labels_in_range cs ms"
    unfolding labels_in_range_iff
  proof (intro allI impI)
    fix j assume j: "j < length cs" "cs ! j \<noteq> None"
    then obtain x where x: "cs ! j = Some x" by auto
    let ?u = "snd (factorize cs)"
    have xu: "x \<in> set ?u"
      using j(1) x by (rule label_in_uniques)
    define i where "i = index_of ?u x"
    have i: "i < length ?u" "?u ! i = x"
      using xu by (simp_all add: i_def index_of_less nth_index_of)
    then have "j \<in> set (argwhere_eq (fst (factorize cs)) (int i))"
      using j(1) x by (simp add: argwhere_eq_factorize)
    moreover have "list_all (\<lambda>j. j < length ms) (argwhere_eq (fst (factorize cs)) (int i))"
      using a i(1) by simp
    ultimately show "j < length ms"
      unfolding list_all_iff by blast
  qed
next
  assume b: "labels_in_range cs ms"
  show "\<forall>i\<in>set [0..<length (snd (factorize cs))].
            list_all (\<lambda>j. j < length ms) (argwhere_eq (fst (factorize cs)) (int i))"
  proof
    fix i assume "i \<in> set [0..<length (snd (factorize cs))]"
    then have i: "i < length (snd (factorize cs))" by simp
    show "list_all (\<lambda>j. j < length ms) (argwhere_eq (fst (factorize cs)) (int i))"
      unfolding list_all_iff argwhere_eq_factorize[OF i]
    proof
      fix j assume "j \<in> set (filter (\<lambda>j. cs ! j = Some (snd (factorize cs) ! i)) [0..<length cs])"
      then have "j < length cs" "cs ! j \<noteq> None" by auto
      with b show "j < length ms"
        unfolding labels_in_range_iff by blast
    qed
  qed
qed

lemma category_loop_factorize:
  assumes "cs \<noteq> []" and "labels_in_range cs ms"
  shows "category_loop (fst (factorize cs)) ms [0..<length (snd (factorize cs))]
           (replicate (length (snd (factorize cs))) 0, replicate (length (snd (factorize cs))) 0)
         = Inr (map (group_mean cs ms) (snd (factorize cs)),
                map (group_count cs ms) (snd (factorize cs)))"
proof -
  let ?u = "snd (factorize cs)" and ?codes = "fst (factorize cs)"
  let ?k = "length ?u"
  have ok: "\<forall>i\<in>set [0..<?k]. list_all (\<lambda>j. j < length ms) (argwhere_eq ?codes (int i))"
    using loop_in_range_iff[OF assms(1), of ms] assms(2) by blast
  have grp: "map (\<lambda>j. ms ! j) (argwhere_eq ?codes (int i)) = group_of cs ms (?u ! i)"
    if "i < ?k" for i
    using that assms(2) by (simp add: argwhere_eq_factorize group_of_positions)
  have cnt: "length (argwhere_eq ?codes (int i)) = length (group_of cs ms (?u ! i))"
    if "i < ?k" for i
    using grp[OF that] by (metis length_map)
  have avg: "map (\<lambda>i. np_average (map (\<lambda>j. ms ! j) (argwhere_eq ?codes (int i)))) [0..<?k]
             = map (group_mean cs ms) ?u"
    by (rule nth_equalityI) (simp_all add: grp np_average_group)
  have num: "map (\<lambda>i. real (length (argwhere_eq ?codes (int i)))) [0..<?k]
             = map (group_count cs ms) ?u"
    by (rule nth_equalityI) (simp_all add: cnt group_count_def)
  show ?thesis
    unfolding category_loop_ok[OF ok] fold_update_upt avg num ..
qed

lemma map2_mult_map:
  fixes f g :: "'a \<Rightarrow> real"
  shows "map2 (*) (map f xs) (map g xs) = map (\<lambda>x. f x * g x) xs"
  by (induction xs) simp_all

lemma correlation_terms_eq:
  "correlation_terms cs ms =
     (if cs = [] then Inl ValueError
      else if labels_in_range cs ms then Inr (between_groups cs ms, total_squares cs ms)
      else Inl IndexError)"
proof (cases "cs = []")
  case True
  then show ?thesis
    by (simp add: correlation_terms_def factorize_def)
next
  case ne: False
  let ?u = "snd (factorize cs)" and ?codes = "fst (factorize cs)"
  have k: "nat (int (length ?u) - 1 + 1) = length ?u"
    by simp
  show ?thesis
  proof (cases "labels_in_range cs ms")
    case False
    then have "\<exists>i\<in>set [0..<length ?u].
                 \<not> list_all (\<lambda>j. j < length ms) (argwhere_eq ?codes (int i))"
      using loop_in_range_iff[OF ne, of ms] by blast
    then have "category_loop ?codes ms [0..<length ?u]
                 (replicate (length ?u) 0, replicate (length ?u) 0) = Inl IndexError"
      by (rule category_loop_fail)
    then show ?thesis
      using ne False by (simp add: correlation_terms_def np_max_factorize k)
  next
    case True
    have gm: "sum_list (map (\<lambda>c. group_mean cs ms c * group_count cs ms c) ?u)
                / sum_list (map (group_count cs ms) ?u) = grand_mean cs ms"
      unfolding grand_mean_def sum_list_uniques by (simp add: mult.commute)
    have bg: "sum_list (map (\<lambda>c. group_count cs ms c * (group_mean cs ms c - grand_mean cs ms)\<^sup>2) ?u)
              = between_groups cs ms"
      unfolding between_groups_def sum_list_uniques ..
    show ?thesis
      using ne True
      by (simp add: correlation_terms_def np_max_factorize k category_loop_factorize
          map2_mult_map gm bg total_squares_def Let_def)
  qed
qed

lemma correlation_ratio_eq:
  "correlation_ratio cs ms =
     (if cs = [] then Inl ValueError
      else if labels_in_range cs ms
      then Inr (if between_groups cs ms = 0 then 0
                else between_groups cs ms / total_squares cs ms)
      else Inl IndexError)"
  by (simp add: correlation_ratio_def correlation_terms_eq)

lemma labels_in_range_same_length: "length cs = length ms \<Longrightarrow> labels_in_range cs ms"
  by (simp add: labels_in_range_def)

subsection \<open>Between-group and total sums of squares\<close>

lemma group_of_upt:
  "group_of cs ms c =
   map (\<lambda>j. ms ! j) (filter (\<lambda>j. cs ! j = Some c) [0..<min (length cs) (length ms)])"
proof -
  have "zip cs ms = map (\<lambda>j. (cs ! j, ms ! j)) [0..<min (length cs) (length ms)]"
    by (rule nth_equalityI) simp_all
  then show ?thesis
    by (simp add: group_of_def filter_map comp_def)
qed

lemma sum_list_group_of:
  fixes f :: "real \<Rightarrow> real"
  shows "sum_list (map f (group_of cs ms c)) =
         (\<Sum>j\<in>{j. j < length cs \<and> j < length ms \<and> cs ! j = Some c}. f (ms ! j))"
proof -
  let ?js = "filter (\<lambda>j. cs ! j = Some c) [0..<min (length cs) (length ms)]"
  have "sum_list (map f (group_of cs ms c)) = sum_list (map (\<lambda>j. f (ms ! j)) ?js)"
    by (simp add: group_of_upt comp_def)
  also have "\<dots> = sum (\<lambda>j. f (ms ! j)) (set ?js)"
    by (rule sum_list_distinct_conv_sum_set) simp
  also have "set ?js = {j. j < length cs \<and> j < length ms \<and> cs ! j = Some c}"
    by auto
  finally show ?thesis .
qed

lemma sum_list_sq_dev:
  fixes g :: "real list"
  shows "(\<Sum>x\<leftarrow>g. (x - m)\<^sup>2) = (\<Sum>x\<leftarrow>g. x\<^sup>2) - 2 * m * sum_list g + real (length g) * m\<^sup>2"
  by (induction g) (simp_all add: power2_eq_square algebra_simps)

lemma group_deviation_le:
  fixes g :: "real list"
  shows "real (length g) * (sum_list g / real (length g) - m)\<^sup>2 \<le> (\<Sum>x\<leftarrow>g. (x - m)\<^sup>2)"
proof (cases "g = []")
  case True
  then show ?thesis by simp
next
  case False
  define n where "n = real (length g)"
  define a where "a = sum_list g / n"
  have n: "n > 0" using False by (simp add: n_def)
  have s: "sum_list g = n * a" using n by (simp add: a_def)
  have "(\<Sum>x\<leftarrow>g. (x - m)\<^sup>2) = (\<Sum>x\<leftarrow>g. (x - a)\<^sup>2) + n * (a - m)\<^sup>2"
    unfolding sum_list_sq_dev n_def[symmetric] s
    by (simp add: power2_eq_square algebra_simps)
  moreover have "0 \<le> (\<Sum>x\<leftarrow>g. (x - a)\<^sup>2)"
    by (rule sum_list_nonneg) auto
  ultimately show ?thesis
    unfolding n_def[symmetric] a_def[symmetric] by linarith
qed

lemma between_groups_nonneg: "0 \<le> between_groups cs ms"
  unfolding between_groups_def
  by (rule sum_list_nonneg) (auto simp: group_count_def)

lemma between_le_total: "between_groups cs ms \<le> total_squares cs ms"
proof -
  define m where "m = grand_mean cs ms"
  define G where "G c = {j. j < length cs \<and> j < length ms \<and> cs ! j = Some c}" for c
  let ?S = "set (present cs)"
  have "between_groups cs ms =
        (\<Sum>c\<in>?S. group_count cs ms c * (group_mean cs ms c - m)\<^sup>2)"
    unfolding between_groups_def m_def
    by (simp add: sum_list_distinct_conv_sum_set)
  also have "\<dots> \<le> (\<Sum>c\<in>?S. \<Sum>x\<leftarrow>group_of cs ms c. (x - m)\<^sup>2)"
    unfolding group_count_def group_mean_def
    by (intro sum_mono group_deviation_le)
  also have "\<dots> = (\<Sum>c\<in>?S. \<Sum>j\<in>G c. (ms ! j - m)\<^sup>2)"
    by (simp add: sum_list_group_of G_def)
  also have "\<dots> = (\<Sum>j\<in>(\<Union>c\<in>?S. G c). (ms ! j - m)\<^sup>2)"
    by (rule sum.UNION_disjoint[symmetric]) (auto simp: G_def)
  also have "\<dots> \<le> (\<Sum>j\<in>{0..<length ms}. (ms ! j - m)\<^sup>2)"
    by (rule sum_mono2) (auto simp: G_def)
  also have "\<dots> = total_squares cs ms"
    unfolding total_squares_def m_def[symmetric]
    by (simp add: sum_list_sum_nth[of "map (\<lambda>x. (x - m)\<^sup>2) ms"])
  finally show ?thesis .
qed

subsection \<open>When the between-group sum vanishes\<close>








subsection \<open>Adding a constant to every measurement\<close>








subsection \<open>Renaming the categories\<close>

lemma present_map:
  "present (map (map_option f) cs) = map f (present cs)"
  by (induction cs) (auto simp: present_def)

lemma remdups_map_inj:
  assumes "inj f"
  shows "remdups (map f xs) = map f (remdups xs)"
  using assms by (induction xs) (auto simp: inj_image_mem_iff)

lemma group_of_rename:
  assumes "inj f"
  shows "group_of (map (map_option f) cs) ms (f c) = group_of cs ms c"
proof -
  have "map_option f l = Some (f c) \<longleftrightarrow> l = Some c" for l
    using assms by (cases l) (auto dest: injD)
  then show ?thesis
    by (simp add: group_of_def zip_map1 filter_map comp_def case_prod_unfold)
qed

lemma labels_in_range_rename:
  "labels_in_range (map (map_option f) cs) ms = labels_in_range cs ms"
  by (simp add: labels_in_range_iff)

lemma rename_invariant_aux:
  assumes "inj f"
  shows "between_groups (map (map_option f) cs) ms = between_groups cs ms"
    and "total_squares (map (map_option f) cs) ms = total_squares cs ms"
proof -
  let ?cs' = "map (map_option f) cs"
  have cnt: "group_count ?cs' ms (f c) = group_count cs ms c" for c
    by (simp add: group_count_def group_of_rename[OF assms])
  have mean: "group_mean ?cs' ms (f c) = group_mean cs ms c" for c
    by (simp add: group_mean_def cnt group_of_rename[OF assms])
  have L: "remdups (present ?cs') = map f (remdups (present cs))"
    by (simp add: present_map remdups_map_inj[OF assms])
  have gm: "grand_mean ?cs' ms = grand_mean cs ms"
    by (simp add: grand_mean_def L comp_def cnt mean)
  show "between_groups ?cs' ms = between_groups cs ms"
    by (simp add: between_groups_def L comp_def cnt mean gm)
  show "total_squares ?cs' ms = total_squares cs ms"
    by (simp add: total_squares_def gm)
qed

lemma correlation_ratio_rename:
  assumes "inj f"
  shows "correlation_ratio (map (map_option f) cs) ms = correlation_ratio cs ms"
  by (simp add: correlation_ratio_eq labels_in_range_rename rename_invariant_aux[OF assms])

subsection \<open>The claims about correlation_ratio\<close>

text \<open>
  C1. For a non-empty label sequence and a measurement sequence of the same length,
  the categories found are the distinct label values, the loop leaves each category's
  mean and count in the two arrays, and the function returns the weighted between-group
  sum of squared deviations from the count-weighted grand mean over the total sum of
  squared deviations of all measurements about it (or \<open>0\<close> when the former is \<open>0\<close>).
\<close>

theorem correlation_ratio_refines:
  assumes "categories \<noteq> []" and "length categories = length measurements"
  shows "distinct (snd (factorize categories))
       \<and> set (snd (factorize categories)) = {c. Some c \<in> set categories}
       \<and> category_loop (fst (factorize categories)) measurements
            [0..<length (snd (factorize categories))]
            (replicate (length (snd (factorize categories))) 0,
             replicate (length (snd (factorize categories))) 0)
          = Inr (map (group_mean categories measurements) (snd (factorize categories)),
                 map (group_count categories measurements) (snd (factorize categories)))
       \<and> correlation_terms categories measurements
          = Inr (between_groups categories measurements, total_squares categories measurements)
       \<and> correlation_ratio categories measurements
          = Inr (if between_groups categories measurements = 0 then 0
                 else between_groups categories measurements
                      / total_squares categories measurements)"
proof -
  have rng: "labels_in_range categories measurements"
    using assms(2) by (rule labels_in_range_same_length)
  have "distinct (snd (factorize categories))"
    by (simp add: snd_factorize distinct_first_appearance)
  moreover have "set (snd (factorize categories)) = {c. Some c \<in> set categories}"
    by (simp add: snd_factorize set_first_appearance set_present)
  moreover note category_loop_factorize[OF assms(1) rng]
  moreover have "correlation_terms categories measurements
          = Inr (between_groups categories measurements, total_squares categories measurements)"
    using assms(1) rng by (simp add: correlation_terms_eq)
  moreover have "correlation_ratio categories measurements
          = Inr (if between_groups categories measurements = 0 then 0
                 else between_groups categories measurements
                      / total_squares categories measurements)"
    using assms(1) rng by (simp add: correlation_ratio_eq)
  ultimately show ?thesis by blast
qed

theorem correlation_ratio_refines_witness:
  "correlation_ratio [Some ''S'', None, Some ''C'', Some ''S''] [1, 2, 4, 3] = Inr (12 / 23)
   \<and> between_groups [Some ''S'', None, Some ''C'', Some ''S''] [1, 2, 4, 3] = 8 / 3
   \<and> total_squares [Some ''S'', None, Some ''C'', Some ''S''] [1, 2, 4, 3] = 46 / 9"
proof -
  have b: "between_groups [Some ''S'', None, Some ''C'', Some ''S''] [1, 2, 4, 3] = 8 / 3"
    by code_simp
  have t: "total_squares [Some ''S'', None, Some ''C'', Some ''S''] [1, 2, 4, 3] = 46 / 9"
    by code_simp
  show ?thesis
    using correlation_ratio_refines[of "[Some ''S'', None, Some ''C'', Some ''S'']" "[1, 2, 4, 3]"]
    by (simp add: b t)
qed



text \<open>
  C3. On a non-empty label sequence with as many measurements, the function returns a
  number in the closed interval from 0 to 1; when the numerator is not \<open>0\<close>, the
  denominator is positive and at least the numerator, and the result is their quotient.
\<close>

theorem correlation_ratio_unit_interval:
  assumes "categories \<noteq> []" and "length categories = length measurements"
  shows "\<exists>numerator denominator eta.
           correlation_terms categories measurements = Inr (numerator, denominator)
         \<and> correlation_ratio categories measurements = Inr eta
         \<and> 0 \<le> eta \<and> eta \<le> 1
         \<and> (numerator \<noteq> 0 \<longrightarrow>
              0 < denominator \<and> numerator \<le> denominator \<and> eta = numerator / denominator)"
proof -
  define b where "b = between_groups categories measurements"
  define t where "t = total_squares categories measurements"
  have rng: "labels_in_range categories measurements"
    using assms(2) by (rule labels_in_range_same_length)
  have terms: "correlation_terms categories measurements = Inr (b, t)"
    using assms(1) rng by (simp add: correlation_terms_eq b_def t_def)
  have ratio: "correlation_ratio categories measurements = Inr (if b = 0 then 0 else b / t)"
    by (simp add: correlation_ratio_def terms)
  have b0: "0 \<le> b" and bt: "b \<le> t"
    by (simp_all add: b_def t_def between_groups_nonneg between_le_total)
  have pos: "0 < t" if "b \<noteq> 0"
    using that b0 bt by linarith
  have "0 \<le> (if b = 0 then 0 else b / t)"
    using b0 bt by simp
  moreover have "(if b = 0 then 0 else b / t) \<le> 1"
    using b0 bt pos by (simp add: divide_le_eq_1)
  ultimately show ?thesis
    using terms ratio pos bt by auto
qed

theorem correlation_ratio_unit_interval_witness:
  "correlation_ratio [Some ''S'', None, Some ''C'', Some ''S''] [1, 2, 4, 3] = Inr (12 / 23)
   \<and> correlation_terms [Some ''S'', None, Some ''C'', Some ''S''] [1, 2, 4, 3] = Inr (8 / 3, 46 / 9)
   \<and> (0::real) \<le> 12 / 23 \<and> (12::real) / 23 \<le> 1 \<and> (8::real) / 3 \<le> 46 / 9"
proof -
  have t: "correlation_terms [Some ''S'', None, Some ''C'', Some ''S''] [1, 2, 4, 3]
           = Inr (8 / 3, 46 / 9)"
    by code_simp
  have r: "correlation_ratio [Some ''S'', None, Some ''C'', Some ''S''] [1, 2, 4, 3]
           = Inr (12 / 23)"
    by (simp add: correlation_ratio_def t)
  show ?thesis
    using correlation_ratio_unit_interval[of "[Some ''S'', None, Some ''C'', Some ''S'']" "[1, 2, 4, 3]"]
    by (simp add: t r)
qed




text \<open>
  C10. The result depends on the labels only through the partition of the positions:
  renaming the categories by an injective function changes nothing.
\<close>

theorem correlation_ratio_renaming:
  assumes "inj f"
  shows "correlation_ratio (map (map_option f) categories) measurements
         = correlation_ratio categories measurements"
  using assms by (rule correlation_ratio_rename)

theorem correlation_ratio_renaming_witness:
  "correlation_ratio (map (map_option Suc) [Some 0, None, Some 1, Some 0]) [1, 2, 4, 3]
   = correlation_ratio [Some (0::nat), None, Some 1, Some 0] [1, 2, 4, 3]
   \<and> correlation_ratio [Some (0::nat), None, Some 1, Some 0] [1, 2, 4, 3] = Inr (12 / 23)
   \<and> map (map_option Suc) [Some 0, None, Some 1, Some 0] = [Some 1, None, Some 2, Some 1]"
proof -
  have "inj Suc" by simp
  moreover have "correlation_ratio [Some (0::nat), None, Some 1, Some 0] [1, 2, 4, 3] = Inr (12 / 23)"
    by code_simp
  ultimately show ?thesis
    using correlation_ratio_renaming[of Suc "[Some 0, None, Some 1, Some 0]" "[1, 2, 4, 3]"]
    by simp
qed

section \<open>Properties of clean\<close>

subsection \<open>Copying columns\<close>

lemma copy_columns_Cons:
  "copy_columns ((label, a) # cols) st =
     ((label, length st) # fst (copy_columns cols (st @ [load st a])),
      snd (copy_columns cols (st @ [load st a])))"
  by (simp add: alloc_def split: prod.splits)

lemma copy_columns_length:
  "length (snd (copy_columns cols st)) = length st + length cols"
proof (induction cols arbitrary: st)
  case (Cons c cols)
  then show ?case by (cases c) (simp add: copy_columns_Cons del: copy_columns.simps)
qed simp

lemma copy_columns_take:
  "take (length st) (snd (copy_columns cols st)) = st"
proof (induction cols arbitrary: st)
  case Nil
  show ?case by simp
next
  case (Cons c cols)
  obtain label a where c: "c = (label, a)" by (cases c)
  let ?st1 = "st @ [load st a]"
  have "take (length ?st1) (snd (copy_columns cols ?st1)) = ?st1"
    by (rule Cons.IH)
  then have "take (length st) (take (length ?st1) (snd (copy_columns cols ?st1)))
        = take (length st) ?st1"
    by simp
  then have "take (length st) (snd (copy_columns cols ?st1)) = st"
    by (simp add: min_def)
  then show ?case
    by (simp add: c copy_columns_Cons del: copy_columns.simps)
qed

lemma copy_columns_labels:
  "map fst (fst (copy_columns cols st)) = map fst cols"
proof (induction cols arbitrary: st)
  case (Cons c cols)
  then show ?case by (cases c) (simp add: copy_columns_Cons del: copy_columns.simps)
qed simp

lemma upt_from_Suc: "[n..<n + Suc k] = n # [Suc n..<Suc n + k]"
  by (subst upt_conv_Cons) simp_all

lemma copy_columns_addrs:
  "map snd (fst (copy_columns cols st)) = [length st..<length st + length cols]"
proof (induction cols arbitrary: st)
  case (Cons c cols)
  obtain label a where c: "c = (label, a)" by (cases c)
  have "map snd (fst (copy_columns cols (st @ [load st a])))
        = [Suc (length st)..<Suc (length st) + length cols]"
    using Cons.IH[of "st @ [load st a]"] by simp
  then have "map snd (fst (copy_columns (c # cols) st))
        = length st # [Suc (length st)..<Suc (length st) + length cols]"
    by (simp add: c copy_columns_Cons del: copy_columns.simps)
  also have "\<dots> = [length st..<length st + Suc (length cols)]"
    by (rule upt_from_Suc[symmetric])
  finally show ?case by simp
qed simp

lemma copy_columns_store:
  assumes "list_all (\<lambda>(label, a). a < length st) cols"
  shows "snd (copy_columns cols st) = st @ map (\<lambda>(label, a). st ! a) cols"
  using assms
proof (induction cols arbitrary: st)
  case Nil
  show ?case by simp
next
  case (Cons c cols)
  obtain label a where c: "c = (label, a)" by (cases c)
  let ?st1 = "st @ [load st a]"
  have a: "a < length st" and rest: "list_all (\<lambda>(label, a). a < length st) cols"
    using Cons.prems by (simp_all add: c)
  have "list_all (\<lambda>(label, a). a < length ?st1) cols"
    using rest by (auto simp: list_all_iff)
  then have "snd (copy_columns cols ?st1) = ?st1 @ map (\<lambda>(label, a). ?st1 ! a) cols"
    by (rule Cons.IH)
  moreover have "map (\<lambda>(label, a). ?st1 ! a) cols = map (\<lambda>(label, a). st ! a) cols"
    using rest by (auto simp: list_all_iff nth_append)
  ultimately show ?case
    using a by (simp add: c copy_columns_Cons load_def del: copy_columns.simps)
qed

subsection \<open>Tables by value\<close>

lemma column_of_table: "column_of st data label = map_of (table_of st data) label"
  by (simp add: column_of_def table_of_def map_of_map)

lemma map_fst_table_of: "map fst (table_of st data) = map fst (columns data)"
  by (simp add: table_of_def comp_def case_prod_unfold)

lemma map_fst_map_column: "map fst (map_column label f tbl) = map fst tbl"
  by (simp add: map_column_def comp_def case_prod_unfold)

lemma map_of_map_column:
  "map_of (map_column label f tbl) l =
     (if l = label then map_option f (map_of tbl l) else map_of tbl l)"
  by (induction tbl) (auto simp: map_column_def)

lemma map_of_filter_labels:
  "map_of (filter (\<lambda>(l, col). l \<notin> S) tbl) l = (if l \<in> S then None else map_of tbl l)"
  by (induction tbl) auto

lemma map_fst_filter_labels:
  "map fst (filter (\<lambda>(l, col). l \<notin> S) tbl) = filter (\<lambda>l. l \<notin> S) (map fst tbl)"
  by (induction tbl) auto

subsection \<open>drop\<close>

lemma wf_frame_valid:
  "wf_frame st data \<Longrightarrow> list_all (\<lambda>(label, a). a < length st) (columns data)"
  by (auto simp: wf_frame_def list_all_iff)

lemma frame_drop_ok:
  assumes wf: "wf_frame st data" and present: "set labels \<subseteq> set (map fst (columns data))"
  shows "\<exists>d st'. frame_drop labels data st = (Inr d, st')
           \<and> n_rows d = n_rows data
           \<and> separate_columns st' d
           \<and> table_of st' d = filter (\<lambda>(l, col). l \<notin> set labels) (table_of st data)
           \<and> take (length st) st' = st"
proof -
  define kept where "kept = filter (\<lambda>(label, a). label \<notin> set labels) (columns data)"
  define cols where "cols = fst (copy_columns kept st)"
  define st' where "st' = snd (copy_columns kept st)"
  define d where "d = data\<lparr>columns := cols\<rparr>"
  let ?n = "length st" and ?k = "length kept"
  have valid: "list_all (\<lambda>(label, a). a < length st) kept"
    using wf_frame_valid[OF wf] by (auto simp: kept_def list_all_iff)
  have run: "frame_drop labels data st = (Inr d, st')"
    using present
    by (simp add: frame_drop_def list_all_iff subset_iff kept_def
        case_prod_unfold cols_def st'_def d_def Let_def)
  have labels: "map fst cols = map fst kept"
    by (simp add: cols_def copy_columns_labels)
  have addrs: "map snd cols = [?n..<?n + ?k]"
    by (simp add: cols_def copy_columns_addrs)
  have store: "st' = st @ map (\<lambda>(label, a). st ! a) kept"
    unfolding st'_def by (rule copy_columns_store[OF valid])
  have len: "length cols = ?k"
    using labels by (metis length_map)
  have "distinct (map fst kept)"
    using wf by (simp add: kept_def wf_frame_def distinct_map_filter)
  then have d1: "distinct (map fst cols)"
    by (simp add: labels)
  have d2: "distinct (map snd cols)"
    by (simp add: addrs)
  have d3: "list_all (\<lambda>(label, a). a < length st') cols"
    unfolding list_all_iff
  proof
    fix c assume "c \<in> set cols"
    then have "snd c \<in> set (map snd cols)" by simp
    then have "snd c < ?n + ?k" unfolding addrs by simp
    then show "case c of (label, a) \<Rightarrow> a < length st'"
      by (simp add: store case_prod_unfold)
  qed
  have sep: "separate_columns st' d"
    using d1 d2 d3 by (simp add: separate_columns_def d_def)
  have tbl: "table_of st' d = filter (\<lambda>(l, col). l \<notin> set labels) (table_of st data)"
  proof -
    have "filter (\<lambda>(l, col). l \<notin> set labels) (table_of st data)
          = map (\<lambda>(label, a). (label, load st a)) kept"
      by (simp add: table_of_def kept_def filter_map comp_def case_prod_unfold)
    also have "\<dots> = map (\<lambda>(label, a). (label, load st' a)) cols"
    proof (rule nth_equalityI)
      show "length (map (\<lambda>(label, a). (label, load st a)) kept)
            = length (map (\<lambda>(label, a). (label, load st' a)) cols)"
        by (simp add: len)
    next
      fix i assume "i < length (map (\<lambda>(label, a). (label, load st a)) kept)"
      then have i: "i < ?k" by simp
      have l: "fst (cols ! i) = fst (kept ! i)"
        using i len by (metis labels nth_map)
      have "snd (cols ! i) = [?n..<?n + ?k] ! i"
        using i len by (metis addrs nth_map)
      then have a: "snd (cols ! i) = ?n + i"
        using i by simp
      have "snd (kept ! i) < length st"
        using valid i by (auto simp: list_all_iff case_prod_unfold dest: nth_mem)
      then have "load st (snd (kept ! i)) = load st' (?n + i)"
        using i by (simp add: load_def store nth_append case_prod_unfold)
      then show "map (\<lambda>(label, a). (label, load st a)) kept ! i
                 = map (\<lambda>(label, a). (label, load st' a)) cols ! i"
        using i len l a by (simp add: case_prod_unfold)
    qed
    finally show ?thesis
      by (simp add: table_of_def d_def)
  qed
  have "take (length st) st' = st"
    unfolding st'_def by (rule copy_columns_take)
  with run sep tbl show ?thesis
    by (intro exI[of _ d] exI[of _ st']) (simp add: d_def)
qed

lemma frame_drop_missing:
  assumes "\<not> set labels \<subseteq> set (map fst (columns data))"
  shows "frame_drop labels data st = (Inl KeyError, st)"
  using assms by (auto simp: frame_drop_def list_all_iff)

subsection \<open>Filling one column\<close>

lemma table_of_update:
  assumes sep: "separate_columns st d" and a: "map_of (columns d) l = Some a"
  shows "table_of (st[a := f (st ! a)]) d = map_column l f (table_of st d)"
proof -
  have dl: "distinct (map fst (columns d))" and da: "distinct (map snd (columns d))"
    and valid: "list_all (\<lambda>(label, a). a < length st) (columns d)"
    using sep by (simp_all add: separate_columns_def)
  have la: "(l, a) \<in> set (columns d)"
    using a by (rule map_of_SomeD)
  have entry: "load (st[a := f (st ! a)]) a' = (if l' = l then f (load st a') else load st a')"
    if mem: "(l', a') \<in> set (columns d)" for l' a'
  proof -
    have a': "a' < length st"
      using valid mem by (auto simp: list_all_iff)
    have "a' = a \<longleftrightarrow> l' = l"
    proof
      assume "a' = a"
      moreover have "inj_on snd (set (columns d))"
        using da by (simp add: distinct_map)
      ultimately have "(l', a') = (l, a)"
        using mem la by (intro inj_onD[of snd "set (columns d)"]) simp_all
      then show "l' = l" by simp
    next
      assume "l' = l"
      then have "map_of (columns d) l = Some a'"
        using mem dl by simp
      with a show "a' = a" by simp
    qed
    then show ?thesis
      using a' by (auto simp: load_def)
  qed
  show ?thesis
    unfolding table_of_def map_column_def map_map
    by (rule map_cong) (auto simp: entry)
qed

lemma separate_columns_update:
  "separate_columns st d \<Longrightarrow> separate_columns (st[a := c]) d"
  by (simp add: separate_columns_def)

lemma lookup_table:
  assumes "map_of (table_of st d) l = Some col"
  shows "\<exists>a. map_of (columns d) l = Some a \<and> load st a = col"
  using assms by (auto simp: column_of_table[symmetric] column_of_def)

lemma fillna_inplace_eq:
  "a < length st \<Longrightarrow> fillna_inplace a v st = st[a := fillna v (st ! a)]"
  by (simp add: fillna_inplace_def load_def)

lemma address_valid:
  assumes "separate_columns st d" and "map_of (columns d) l = Some a"
  shows "a < length st"
  using assms map_of_SomeD[OF assms(2)] by (auto simp: separate_columns_def list_all_iff)

lemma fillna_value_table:
  assumes sep: "separate_columns st d" and col: "map_of (table_of st d) l = Some col"
  shows "\<exists>st'. fillna_value d l v st = (Inr (), st')
           \<and> separate_columns st' d
           \<and> table_of st' d = map_column l (fillna v) (table_of st d)"
proof -
  from lookup_table[OF col] obtain a where a: "map_of (columns d) l = Some a" by blast
  have lt: "a < length st" using sep a by (rule address_valid)
  let ?st' = "st[a := fillna v (st ! a)]"
  have "fillna_value d l v st = (Inr (), ?st')"
    by (simp add: fillna_value_def getitem_def a fillna_inplace_eq[OF lt])
  moreover have "separate_columns ?st' d"
    using sep by (rule separate_columns_update)
  moreover have "table_of ?st' d = map_column l (fillna v) (table_of st d)"
    using sep a by (rule table_of_update)
  ultimately show ?thesis by blast
qed

lemma fillna_mean_table:
  assumes sep: "separate_columns st d" and col: "map_of (table_of st d) l = Some col"
    and numeric: "\<not> list_ex is_Str col"
  shows "\<exists>st'. fillna_mean d l st = (Inr (), st')
           \<and> separate_columns st' d
           \<and> table_of st' d = map_column l (fillna (mean_cell col)) (table_of st d)"
proof -
  from lookup_table[OF col] obtain a
    where a: "map_of (columns d) l = Some a" and ld: "load st a = col" by blast
  have lt: "a < length st" using sep a by (rule address_valid)
  let ?st' = "st[a := fillna (mean_cell col) (st ! a)]"
  have "fillna_mean d l st = (Inr (), ?st')"
    using numeric
    by (simp add: fillna_mean_def getitem_def a ld series_mean_def fillna_inplace_eq[OF lt])
  moreover have "separate_columns ?st' d"
    using sep by (rule separate_columns_update)
  moreover have "table_of ?st' d = map_column l (fillna (mean_cell col)) (table_of st d)"
    using sep a by (rule table_of_update)
  ultimately show ?thesis by blast
qed

subsection \<open>What the fills may change\<close>

lemma only_changes_refl: "only_changes A st st"
  by (simp add: only_changes_def)

lemma only_changes_trans:
  "only_changes A st st' \<Longrightarrow> only_changes A st' st'' \<Longrightarrow> only_changes A st st''"
  by (simp add: only_changes_def)

lemma only_changes_fillna_inplace:
  fixes st :: store
  assumes "a \<in> A"
  shows "only_changes A st (fillna_inplace a v st)"
proof -
  have "st[a := c] ! b = st ! b" if "b \<notin> A" for b c
  proof -
    from that assms have "a \<noteq> b" by blast
    then show ?thesis by simp
  qed
  then show ?thesis
    by (simp add: only_changes_def fillna_inplace_def)
qed

lemma only_changes_fillna_value:
  "only_changes (snd ` set (columns d)) st (snd (fillna_value d l v st))"
proof (cases "map_of (columns d) l")
  case None
  then show ?thesis
    by (simp add: fillna_value_def getitem_def only_changes_refl)
next
  case (Some a)
  then have "a \<in> snd ` set (columns d)"
    by (metis map_of_SomeD snd_conv image_eqI)
  then show ?thesis
    by (simp add: fillna_value_def getitem_def Some only_changes_fillna_inplace)
qed

lemma only_changes_fillna_mean:
  "only_changes (snd ` set (columns d)) st (snd (fillna_mean d l st))"
proof (cases "map_of (columns d) l")
  case None
  then show ?thesis
    by (simp add: fillna_mean_def getitem_def only_changes_refl)
next
  case (Some a)
  then have "a \<in> snd ` set (columns d)"
    by (metis map_of_SomeD snd_conv image_eqI)
  then show ?thesis
    by (cases "series_mean (load st a)")
      (simp_all add: fillna_mean_def getitem_def Some only_changes_fillna_inplace
        only_changes_refl)
qed

lemma only_changes_and_then:
  assumes "\<And>st. only_changes A st (snd (f st))"
    and "\<And>x st. only_changes A st (snd (g x st))"
  shows "only_changes A st (snd (and_then f g st))"
proof (cases "f st")
  case (Pair r st')
  have 1: "only_changes A st st'"
    using assms(1)[of st] by (simp add: Pair)
  show ?thesis
  proof (cases r)
    case (Inl e)
    then show ?thesis using 1 by (simp add: and_then_def Pair)
  next
    case (Inr x)
    then show ?thesis
      using only_changes_trans[OF 1 assms(2)[of st' x]] by (simp add: and_then_def Pair)
  qed
qed

lemma only_changes_return_value: "only_changes A st (snd (return_value x st))"
  by (simp add: return_value_def only_changes_refl)

lemma and_then_InrD:
  assumes "and_then f g st = (Inr y, st'')"
  shows "\<exists>x st'. f st = (Inr x, st') \<and> g x st' = (Inr y, st'')"
  using assms by (auto simp: and_then_def split: prod.splits sum.splits)

lemma and_then_Inr:
  "f st = (Inr x, st') \<Longrightarrow> and_then f g st = g x st'"
  by (simp add: and_then_def)

lemma and_then_Inl:
  "f st = (Inl e, st') \<Longrightarrow> and_then f g st = (Inl e, st')"
  by (simp add: and_then_def)

subsection \<open>clean as a whole\<close>

lemma frame_drop_fresh:
  assumes "frame_drop labels data st = (r, st')"
  shows "take (length st) st' = st"
    and "r = Inr d \<Longrightarrow> list_all (\<lambda>(label, a). length st \<le> a) (columns d)"
proof -
  let ?kept = "filter (\<lambda>(label, a). label \<notin> set labels) (columns data)"
  show "take (length st) st' = st"
    using assms
    by (auto simp: frame_drop_def Let_def case_prod_unfold copy_columns_take
        split: if_splits)
  show "list_all (\<lambda>(label, a). length st \<le> a) (columns d)" if "r = Inr d"
  proof -
    have d: "columns d = fst (copy_columns ?kept st)"
      using assms that
      by (auto simp: frame_drop_def Let_def case_prod_unfold split: if_splits)
    show ?thesis
      unfolding list_all_iff
    proof
      fix c assume "c \<in> set (columns d)"
      then have "snd c \<in> set (map snd (fst (copy_columns ?kept st)))"
        by (simp add: d)
      then have "length st \<le> snd c"
        unfolding copy_columns_addrs by simp
      then show "case c of (label, a) \<Rightarrow> length st \<le> a"
        by (simp add: case_prod_unfold)
    qed
  qed
qed

lemma fills_only_change_own_columns:
  "only_changes (snd ` set (columns d)) st
     (snd (and_then (fillna_mean d ''Age'') (\<lambda>_.
           and_then (fillna_value d ''Embarked'' (Str ''U'')) (\<lambda>_.
           and_then (fillna_value d ''SibSp'' (Num 0)) (\<lambda>_.
           and_then (fillna_value d ''Parch'' (Num 0)) (\<lambda>_.
           and_then (fillna_mean d ''Fare'') (\<lambda>_.
           return_value d))))) st))"
  by (intro only_changes_and_then only_changes_fillna_mean only_changes_fillna_value
      only_changes_return_value)

lemma clean_result_frame:
  assumes "clean data st = (Inr d, st')"
  shows "\<exists>st1. frame_drop droppable_columns data st = (Inr d, st1)"
proof -
  from assms obtain d1 st1 where
    drop: "frame_drop droppable_columns data st = (Inr d1, st1)" and
    rest: "and_then (fillna_mean d1 ''Age'') (\<lambda>_.
           and_then (fillna_value d1 ''Embarked'' (Str ''U'')) (\<lambda>_.
           and_then (fillna_value d1 ''SibSp'' (Num 0)) (\<lambda>_.
           and_then (fillna_value d1 ''Parch'' (Num 0)) (\<lambda>_.
           and_then (fillna_mean d1 ''Fare'') (\<lambda>_.
           return_value d1))))) st1 = (Inr d, st')"
    unfolding clean_def by (blast dest: and_then_InrD)
  from rest have "d = d1"
    by (auto dest!: and_then_InrD simp: return_value_def)
  with drop show ?thesis by blast
qed

lemma clean_store_prefix: "take (length st) (snd (clean data st)) = st"
proof (cases "frame_drop droppable_columns data st")
  case (Pair r st1)
  have pre: "take (length st) st1 = st"
    using Pair by (rule frame_drop_fresh(1))
  show ?thesis
  proof (cases r)
    case (Inl e)
    then show ?thesis
      using pre by (simp add: clean_def and_then_def Pair)
  next
    case (Inr d)
    let ?A = "snd ` set (columns d)"
    define st2 where "st2 = snd (clean data st)"
    have fresh: "list_all (\<lambda>(label, a). length st \<le> a) (columns d)"
      using Pair Inr by (rule frame_drop_fresh(2))
    have oc: "only_changes ?A st1 st2"
      unfolding st2_def using fills_only_change_own_columns[of d st1]
      by (simp add: clean_def and_then_def Pair Inr)
    have len1: "length st \<le> length st1"
      using pre by (metis length_take min.absorb_iff2 min.commute order_refl)
    have "take (length st) st2 = take (length st) st1"
    proof (rule nth_equalityI)
      show "length (take (length st) st2) = length (take (length st) st1)"
        using oc by (simp add: only_changes_def)
    next
      fix i assume "i < length (take (length st) st2)"
      then have i: "i < length st" by simp
      have "i \<notin> ?A"
      proof
        assume "i \<in> ?A"
        then obtain c where "c \<in> set (columns d)" "i = snd c" by blast
        with fresh have "length st \<le> i"
          by (auto simp: list_all_iff)
        with i show False by simp
      qed
      then have "st2 ! i = st1 ! i"
        using oc i len1 by (simp add: only_changes_def)
      then show "take (length st) st2 ! i = take (length st) st1 ! i"
        using i by simp
    qed
    then show ?thesis
      using pre by (simp add: st2_def)
  qed
qed

lemma table_of_prefix:
  assumes "wf_frame st data" and "take (length st) st' = st"
  shows "table_of st' data = table_of st data"
proof -
  have len: "length st \<le> length st'"
    using assms(2) by (metis length_take min.absorb_iff2 min.commute order_refl)
  have "load st' a = load st a" if "a < length st" for a
  proof -
    have "st' ! a = take (length st) st' ! a"
      using that by simp
    then show ?thesis
      using that len by (simp add: load_def assms(2))
  qed
  then show ?thesis
    using wf_frame_valid[OF assms(1)]
    by (auto simp: table_of_def list_all_iff)
qed

lemma kept_labels:
  "''Age'' \<notin> set droppable_columns" "''Embarked'' \<notin> set droppable_columns"
  "''SibSp'' \<notin> set droppable_columns" "''Parch'' \<notin> set droppable_columns"
  "''Fare'' \<notin> set droppable_columns"
  by (simp_all add: droppable_columns_def)

lemma clean_table:
  assumes wf: "wf_frame st data"
    and drp: "set droppable_columns \<subseteq> set (map fst (columns data))"
    and age: "column_of st data ''Age'' = Some age" and age_num: "\<not> list_ex is_Str age"
    and emb: "column_of st data ''Embarked'' = Some emb"
    and sib: "column_of st data ''SibSp'' = Some sib"
    and par: "column_of st data ''Parch'' = Some par"
    and fare: "column_of st data ''Fare'' = Some fare" and fare_num: "\<not> list_ex is_Str fare"
  shows "\<exists>d st'. clean data st = (Inr d, st')
           \<and> n_rows d = n_rows data
           \<and> table_of st' d =
               map_column ''Fare'' (fillna (mean_cell fare))
                (map_column ''Parch'' (fillna (Num 0))
                  (map_column ''SibSp'' (fillna (Num 0))
                    (map_column ''Embarked'' (fillna (Str ''U''))
                      (map_column ''Age'' (fillna (mean_cell age))
                        (filter (\<lambda>(l, col). l \<notin> set droppable_columns)
                           (table_of st data))))))"
proof -
  let ?T0 = "filter (\<lambda>(l, col). l \<notin> set droppable_columns) (table_of st data)"
  let ?T1 = "map_column ''Age'' (fillna (mean_cell age)) ?T0"
  let ?T2 = "map_column ''Embarked'' (fillna (Str ''U'')) ?T1"
  let ?T3 = "map_column ''SibSp'' (fillna (Num 0)) ?T2"
  let ?T4 = "map_column ''Parch'' (fillna (Num 0)) ?T3"
  let ?T5 = "map_column ''Fare'' (fillna (mean_cell fare)) ?T4"
  from frame_drop_ok[OF wf drp] obtain d st1 where
    run0: "frame_drop droppable_columns data st = (Inr d, st1)" and
    rows: "n_rows d = n_rows data" and
    sep1: "separate_columns st1 d" and
    t0: "table_of st1 d = ?T0"
    by blast
  have look0: "map_of ?T0 ''Age'' = Some age" "map_of ?T0 ''Embarked'' = Some emb"
    "map_of ?T0 ''SibSp'' = Some sib" "map_of ?T0 ''Parch'' = Some par"
    "map_of ?T0 ''Fare'' = Some fare"
    using age emb sib par fare
    by (simp_all add: map_of_filter_labels column_of_table kept_labels)
  have "map_of (table_of st1 d) ''Age'' = Some age"
    by (simp add: t0 look0)
  from fillna_mean_table[OF sep1 this age_num] obtain st2 where
    run1: "fillna_mean d ''Age'' st1 = (Inr (), st2)" and
    sep2: "separate_columns st2 d" and
    t1: "table_of st2 d = ?T1"
    by (auto simp: t0)
  have "map_of (table_of st2 d) ''Embarked'' = Some emb"
    by (simp add: t1 map_of_map_column look0)
  from fillna_value_table[OF sep2 this, of "Str ''U''"] obtain st3 where
    run2: "fillna_value d ''Embarked'' (Str ''U'') st2 = (Inr (), st3)" and
    sep3: "separate_columns st3 d" and
    t2: "table_of st3 d = ?T2"
    by (auto simp: t1)
  have "map_of (table_of st3 d) ''SibSp'' = Some sib"
    by (simp add: t2 map_of_map_column look0)
  from fillna_value_table[OF sep3 this, of "Num 0"] obtain st4 where
    run3: "fillna_value d ''SibSp'' (Num 0) st3 = (Inr (), st4)" and
    sep4: "separate_columns st4 d" and
    t3: "table_of st4 d = ?T3"
    by (auto simp: t2)
  have "map_of (table_of st4 d) ''Parch'' = Some par"
    by (simp add: t3 map_of_map_column look0)
  from fillna_value_table[OF sep4 this, of "Num 0"] obtain st5 where
    run4: "fillna_value d ''Parch'' (Num 0) st4 = (Inr (), st5)" and
    sep5: "separate_columns st5 d" and
    t4: "table_of st5 d = ?T4"
    by (auto simp: t3)
  have "map_of (table_of st5 d) ''Fare'' = Some fare"
    by (simp add: t4 map_of_map_column look0)
  from fillna_mean_table[OF sep5 this fare_num] obtain st6 where
    run5: "fillna_mean d ''Fare'' st5 = (Inr (), st6)" and
    t5: "table_of st6 d = ?T5"
    by (auto simp: t4)
  have "clean data st = (Inr d, st6)"
    by (simp add: clean_def and_then_def run0 run1 run2 run3 run4 run5 return_value_def)
  with rows t5 show ?thesis by blast
qed

subsection \<open>What a fill keeps\<close>

lemma keeps_present_refl: "keeps_present col col"
  by (simp add: keeps_present_def)

lemma keeps_present_trans:
  "keeps_present c1 c2 \<Longrightarrow> keeps_present c2 c3 \<Longrightarrow> keeps_present c1 c3"
  by (simp add: keeps_present_def)

lemma keeps_present_fillna: "keeps_present col (fillna v col)"
  by (simp add: keeps_present_def fillna_def)

lemma map_column_keeps:
  assumes "map_of tbl l = Some col'" and "keeps_present col col'"
  shows "\<exists>col''. map_of (map_column lab (fillna v) tbl) l = Some col'' \<and> keeps_present col col''"
proof (cases "l = lab")
  case True
  then have "map_of (map_column lab (fillna v) tbl) l = Some (fillna v col')"
    using assms(1) by (simp add: map_of_map_column)
  moreover have "keeps_present col (fillna v col')"
    using assms(2) keeps_present_fillna by (rule keeps_present_trans)
  ultimately show ?thesis by blast
next
  case False
  then have "map_of (map_column lab (fillna v) tbl) l = Some col'"
    using assms(1) by (simp add: map_of_map_column)
  with assms(2) show ?thesis by blast
qed

lemma fillna_no_missing: "v \<noteq> NaN \<Longrightarrow> NaN \<notin> set (fillna v col)"
  by (auto simp: fillna_def)

lemma mean_cell_Num:
  assumes "\<not> list_ex is_Str col" and "list_ex (\<lambda>c. c \<noteq> NaN) col"
  shows "mean_cell col = Num (sum_list (numbers col) / real (length (numbers col)))"
proof -
  from assms(2) obtain c where c: "c \<in> set col" "c \<noteq> NaN"
    by (auto simp: list_ex_iff)
  with assms(1) have "is_Num c"
    by (cases c) (auto simp: list_ex_iff)
  with c(1) have "filter is_Num col \<noteq> []"
    by (auto simp: filter_empty_conv)
  then show ?thesis
    by (simp add: mean_cell_def numbers_def)
qed

subsection \<open>The sample table\<close>

lemma clean_sample:
  "clean sample_table sample_store =
     (Inr cleaned_table,
      sample_store @
        [[Num 22, Num 22], [Str ''U'', Str ''C''], [Num 1, Num 0], [Num 0, Num 0],
         [Num 71, Num 71], [Num 0, Num 1]])"
  by code_simp

lemma sample_hyps:
  "wf_frame sample_store sample_table"
  "set droppable_columns \<subseteq> set (map fst (columns sample_table))"
  "column_of sample_store sample_table ''Age'' = Some [Num 22, NaN]"
  "\<not> list_ex is_Str [Num 22, NaN]"
  "column_of sample_store sample_table ''Embarked'' = Some [NaN, Str ''C'']"
  "column_of sample_store sample_table ''SibSp'' = Some [Num 1, NaN]"
  "column_of sample_store sample_table ''Parch'' = Some [NaN, Num 0]"
  "column_of sample_store sample_table ''Fare'' = Some [NaN, Num 71]"
  "\<not> list_ex is_Str [NaN, Num 71]"
  by code_simp+

lemma sample_values:
  "list_ex (\<lambda>c. c \<noteq> NaN) [Num 22, NaN]" "list_ex (\<lambda>c. c \<noteq> NaN) [NaN, Num 71]"
  "list_ex (\<lambda>c. c \<noteq> NaN) [NaN, Str ''C'']" "list_ex (\<lambda>c. c \<noteq> NaN) [Num 1, NaN]"
  "list_ex (\<lambda>c. c \<noteq> NaN) [NaN, Num 0]"
  by simp_all

subsection \<open>The claims about clean\<close>

text \<open>
  C5, as the code has it. On a well-formed table that has the columns Name, Ticket and
  Cabin (without them \<open>drop\<close> raises KeyError), whose Age and Fare hold no strings, and
  in which each of Age, Fare, Embarked, SibSp and Parch has a cell that is not missing,
  \<open>clean\<close> returns a table in which the missing cells of Age and of Fare hold the mean
  of the column's numbers, those of Embarked hold \<open>U\<close>, those of SibSp and Parch hold
  \<open>0\<close>, and none of the five columns has a missing cell.
\<close>

theorem clean_fills_missing:
  assumes wf: "wf_frame st data"
    and drp: "set droppable_columns \<subseteq> set (map fst (columns data))"
    and age: "column_of st data ''Age'' = Some age"
    and age_num: "\<not> list_ex is_Str age" and age_val: "list_ex (\<lambda>c. c \<noteq> NaN) age"
    and fare: "column_of st data ''Fare'' = Some fare"
    and fare_num: "\<not> list_ex is_Str fare" and fare_val: "list_ex (\<lambda>c. c \<noteq> NaN) fare"
    and emb: "column_of st data ''Embarked'' = Some emb" and "list_ex (\<lambda>c. c \<noteq> NaN) emb"
    and sib: "column_of st data ''SibSp'' = Some sib" and "list_ex (\<lambda>c. c \<noteq> NaN) sib"
    and par: "column_of st data ''Parch'' = Some par" and "list_ex (\<lambda>c. c \<noteq> NaN) par"
  shows "\<exists>data' st'. clean data st = (Inr data', st')
     \<and> column_of st' data' ''Age''
         = Some (fillna (Num (sum_list (numbers age) / real (length (numbers age)))) age)
     \<and> column_of st' data' ''Fare''
         = Some (fillna (Num (sum_list (numbers fare) / real (length (numbers fare)))) fare)
     \<and> column_of st' data' ''Embarked'' = Some (fillna (Str ''U'') emb)
     \<and> column_of st' data' ''SibSp'' = Some (fillna (Num 0) sib)
     \<and> column_of st' data' ''Parch'' = Some (fillna (Num 0) par)
     \<and> (\<forall>label\<in>set [''Age'', ''Fare'', ''Embarked'', ''SibSp'', ''Parch''].
           \<exists>col. column_of st' data' label = Some col \<and> NaN \<notin> set col)"
proof -
  let ?T0 = "filter (\<lambda>(l, col). l \<notin> set droppable_columns) (table_of st data)"
  from clean_table[OF wf drp age age_num emb sib par fare fare_num] obtain d st' where
    run: "clean data st = (Inr d, st')" and
    tbl: "table_of st' d =
            map_column ''Fare'' (fillna (mean_cell fare))
             (map_column ''Parch'' (fillna (Num 0))
               (map_column ''SibSp'' (fillna (Num 0))
                 (map_column ''Embarked'' (fillna (Str ''U''))
                   (map_column ''Age'' (fillna (mean_cell age)) ?T0))))"
    by blast
  have look0: "map_of ?T0 ''Age'' = Some age" "map_of ?T0 ''Embarked'' = Some emb"
    "map_of ?T0 ''SibSp'' = Some sib" "map_of ?T0 ''Parch'' = Some par"
    "map_of ?T0 ''Fare'' = Some fare"
    using age emb sib par fare
    by (simp_all add: map_of_filter_labels column_of_table kept_labels)
  have m_age: "mean_cell age = Num (sum_list (numbers age) / real (length (numbers age)))"
    using age_num age_val by (rule mean_cell_Num)
  have m_fare: "mean_cell fare = Num (sum_list (numbers fare) / real (length (numbers fare)))"
    using fare_num fare_val by (rule mean_cell_Num)
  have c_age: "column_of st' d ''Age''
         = Some (fillna (Num (sum_list (numbers age) / real (length (numbers age)))) age)"
    by (simp add: column_of_table tbl map_of_map_column look0 m_age)
  have c_fare: "column_of st' d ''Fare''
         = Some (fillna (Num (sum_list (numbers fare) / real (length (numbers fare)))) fare)"
    by (simp add: column_of_table tbl map_of_map_column look0 m_fare)
  have c_emb: "column_of st' d ''Embarked'' = Some (fillna (Str ''U'') emb)"
    by (simp add: column_of_table tbl map_of_map_column look0)
  have c_sib: "column_of st' d ''SibSp'' = Some (fillna (Num 0) sib)"
    by (simp add: column_of_table tbl map_of_map_column look0)
  have c_par: "column_of st' d ''Parch'' = Some (fillna (Num 0) par)"
    by (simp add: column_of_table tbl map_of_map_column look0)
  have none: "\<forall>label\<in>set [''Age'', ''Fare'', ''Embarked'', ''SibSp'', ''Parch''].
           \<exists>col. column_of st' d label = Some col \<and> NaN \<notin> set col"
    by (simp add: c_age c_fare c_emb c_sib c_par fillna_no_missing)
  from run c_age c_fare c_emb c_sib c_par none show ?thesis
    by (intro exI conjI)
qed

theorem clean_fills_missing_witness:
  "fst (clean sample_table sample_store) = Inr cleaned_table
   \<and> column_of (snd (clean sample_table sample_store)) cleaned_table ''Age''
       = Some [Num 22, Num 22]
   \<and> column_of (snd (clean sample_table sample_store)) cleaned_table ''Fare''
       = Some [Num 71, Num 71]
   \<and> column_of (snd (clean sample_table sample_store)) cleaned_table ''Embarked''
       = Some [Str ''U'', Str ''C'']
   \<and> column_of (snd (clean sample_table sample_store)) cleaned_table ''SibSp''
       = Some [Num 1, Num 0]
   \<and> column_of (snd (clean sample_table sample_store)) cleaned_table ''Parch''
       = Some [Num 0, Num 0]"
proof -
  from clean_fills_missing[OF sample_hyps(1,2,3,4) sample_values(1) sample_hyps(8,9)
      sample_values(2) sample_hyps(5) sample_values(3) sample_hyps(6) sample_values(4)
      sample_hyps(7) sample_values(5)]
  obtain data' st' where
    run: "clean sample_table sample_store = (Inr data', st')" and
    cols: "column_of st' data' ''Age''
         = Some (fillna (Num (sum_list (numbers [Num 22, NaN]) / real (length (numbers [Num 22, NaN]))))
                   [Num 22, NaN])"
      "column_of st' data' ''Fare''
         = Some (fillna (Num (sum_list (numbers [NaN, Num 71]) / real (length (numbers [NaN, Num 71]))))
                   [NaN, Num 71])"
      "column_of st' data' ''Embarked'' = Some (fillna (Str ''U'') [NaN, Str ''C''])"
      "column_of st' data' ''SibSp'' = Some (fillna (Num 0) [Num 1, NaN])"
      "column_of st' data' ''Parch'' = Some (fillna (Num 0) [NaN, Num 0])"
    by blast
  from run have d: "data' = cleaned_table"
    by (simp add: clean_sample)
  from cols show ?thesis
    by (simp add: run d fillna_def numbers_def)
qed

text \<open>
  The claim C5 as it was stated: a table with the five columns, each with a cell that
  is not missing, and no column Name, Ticket or Cabin. \<open>clean\<close> raises KeyError.
\<close>

theorem clean_fills_missing_counterexample:
  "wf_frame [[Num 22, NaN], [Num 7, NaN], [Str ''S'', NaN], [Num 1, NaN], [Num 0, NaN]]
     \<lparr>n_rows = 2, columns = [(''Age'', 0), (''Fare'', 1), (''Embarked'', 2), (''SibSp'', 3),
                              (''Parch'', 4)]\<rparr>
   \<and> table_of [[Num 22, NaN], [Num 7, NaN], [Str ''S'', NaN], [Num 1, NaN], [Num 0, NaN]]
       \<lparr>n_rows = 2, columns = [(''Age'', 0), (''Fare'', 1), (''Embarked'', 2), (''SibSp'', 3),
                                (''Parch'', 4)]\<rparr>
     = [(''Age'', [Num 22, NaN]), (''Fare'', [Num 7, NaN]), (''Embarked'', [Str ''S'', NaN]),
        (''SibSp'', [Num 1, NaN]), (''Parch'', [Num 0, NaN])]
   \<and> fst (clean
       \<lparr>n_rows = 2, columns = [(''Age'', 0), (''Fare'', 1), (''Embarked'', 2), (''SibSp'', 3),
                                (''Parch'', 4)]\<rparr>
       [[Num 22, NaN], [Num 7, NaN], [Str ''S'', NaN], [Num 1, NaN], [Num 0, NaN]])
     = Inl KeyError"
  by code_simp

text \<open>
  C6, as the code has it. On a well-formed table that has the columns Name, Ticket,
  Cabin, Age, Embarked, SibSp, Parch and Fare (without one of them \<open>clean\<close> raises
  KeyError), with no strings in Age and Fare, \<open>clean\<close> returns a table whose columns are
  those of the input without Name, Ticket and Cabin, in the same order, with the same
  number of rows; every retained column keeps its length and every cell that was not
  missing.
\<close>

theorem clean_drops_columns:
  assumes wf: "wf_frame st data"
    and drp: "set droppable_columns \<subseteq> set (map fst (columns data))"
    and age: "column_of st data ''Age'' = Some age" and age_num: "\<not> list_ex is_Str age"
    and emb: "column_of st data ''Embarked'' = Some emb"
    and sib: "column_of st data ''SibSp'' = Some sib"
    and par: "column_of st data ''Parch'' = Some par"
    and fare: "column_of st data ''Fare'' = Some fare" and fare_num: "\<not> list_ex is_Str fare"
  shows "\<exists>data' st'. clean data st = (Inr data', st')
     \<and> map fst (columns data')
         = filter (\<lambda>label. label \<notin> {''Name'', ''Ticket'', ''Cabin''}) (map fst (columns data))
     \<and> n_rows data' = n_rows data
     \<and> (\<forall>label col. label \<notin> {''Name'', ''Ticket'', ''Cabin''} \<longrightarrow>
           column_of st data label = Some col \<longrightarrow>
           (\<exists>col'. column_of st' data' label = Some col'
              \<and> length col' = length col
              \<and> (\<forall>i<length col. col ! i \<noteq> NaN \<longrightarrow> col' ! i = col ! i)))"
proof -
  let ?T0 = "filter (\<lambda>(l, col). l \<notin> set droppable_columns) (table_of st data)"
  let ?T1 = "map_column ''Age'' (fillna (mean_cell age)) ?T0"
  let ?T2 = "map_column ''Embarked'' (fillna (Str ''U'')) ?T1"
  let ?T3 = "map_column ''SibSp'' (fillna (Num 0)) ?T2"
  let ?T4 = "map_column ''Parch'' (fillna (Num 0)) ?T3"
  let ?T5 = "map_column ''Fare'' (fillna (mean_cell fare)) ?T4"
  have S: "set droppable_columns = {''Name'', ''Ticket'', ''Cabin''}"
    by (simp add: droppable_columns_def)
  from clean_table[OF wf drp age age_num emb sib par fare fare_num] obtain d st' where
    run: "clean data st = (Inr d, st')" and
    rows: "n_rows d = n_rows data" and
    tbl: "table_of st' d = ?T5"
    by blast
  have "map fst (columns d) = map fst (table_of st' d)"
    by (simp add: map_fst_table_of)
  also have "\<dots> = filter (\<lambda>label. label \<notin> set droppable_columns) (map fst (columns data))"
    by (simp add: tbl map_fst_map_column map_fst_filter_labels map_fst_table_of)
  finally have labels: "map fst (columns d)
         = filter (\<lambda>label. label \<notin> {''Name'', ''Ticket'', ''Cabin''}) (map fst (columns data))"
    by (simp only: S)
  have kept: "\<exists>col'. column_of st' d label = Some col'
              \<and> length col' = length col
              \<and> (\<forall>i<length col. col ! i \<noteq> NaN \<longrightarrow> col' ! i = col ! i)"
    if l: "label \<notin> {''Name'', ''Ticket'', ''Cabin''}" and c: "column_of st data label = Some col"
    for label col
  proof -
    have "label \<notin> set droppable_columns"
      using l unfolding S .
    then have "map_of ?T0 label = Some col"
      using c by (simp add: map_of_filter_labels column_of_table)
    from map_column_keeps[OF this keeps_present_refl] obtain c1 where
      "map_of ?T1 label = Some c1" "keeps_present col c1" by blast
    from map_column_keeps[OF this] obtain c2 where
      "map_of ?T2 label = Some c2" "keeps_present col c2" by blast
    from map_column_keeps[OF this] obtain c3 where
      "map_of ?T3 label = Some c3" "keeps_present col c3" by blast
    from map_column_keeps[OF this] obtain c4 where
      "map_of ?T4 label = Some c4" "keeps_present col c4" by blast
    from map_column_keeps[OF this] obtain c5 where
      "map_of ?T5 label = Some c5" "keeps_present col c5" by blast
    then have "column_of st' d label = Some c5
        \<and> length c5 = length col \<and> (\<forall>i<length col. col ! i \<noteq> NaN \<longrightarrow> c5 ! i = col ! i)"
      by (simp add: column_of_table tbl keeps_present_def)
    then show ?thesis by (rule exI)
  qed
  have kept_all: "\<forall>label col. label \<notin> {''Name'', ''Ticket'', ''Cabin''} \<longrightarrow>
           column_of st data label = Some col \<longrightarrow>
           (\<exists>col'. column_of st' d label = Some col'
              \<and> length col' = length col
              \<and> (\<forall>i<length col. col ! i \<noteq> NaN \<longrightarrow> col' ! i = col ! i))"
    by (intro allI impI) (rule kept)
  from run labels rows kept_all show ?thesis
    by (intro exI[of _ d] exI[of _ st'] conjI)
qed

theorem clean_drops_columns_witness:
  "fst (clean sample_table sample_store) = Inr cleaned_table
   \<and> map fst (columns cleaned_table)
       = filter (\<lambda>label. label \<notin> {''Name'', ''Ticket'', ''Cabin''})
           (map fst (columns sample_table))
   \<and> map fst (columns cleaned_table)
       = [''Age'', ''Embarked'', ''SibSp'', ''Parch'', ''Fare'', ''Survived'']
   \<and> n_rows cleaned_table = n_rows sample_table
   \<and> column_of sample_store sample_table ''Survived'' = Some [Num 0, Num 1]
   \<and> column_of (snd (clean sample_table sample_store)) cleaned_table ''Survived''
       = Some [Num 0, Num 1]"
proof -
  from clean_drops_columns[OF sample_hyps]
  obtain data' st' where
    run: "clean sample_table sample_store = (Inr data', st')" and
    labels: "map fst (columns data')
         = filter (\<lambda>label. label \<notin> {''Name'', ''Ticket'', ''Cabin''})
             (map fst (columns sample_table))" and
    rows: "n_rows data' = n_rows sample_table"
    by (elim exE conjE)
  from run have d: "data' = cleaned_table"
    by (simp add: clean_sample)
  have 1: "fst (clean sample_table sample_store) = Inr cleaned_table"
    by (simp add: clean_sample)
  have 2: "map fst (columns cleaned_table)
       = [''Age'', ''Embarked'', ''SibSp'', ''Parch'', ''Fare'', ''Survived'']"
    by (simp add: cleaned_table_def)
  have 3: "column_of sample_store sample_table ''Survived'' = Some [Num 0, Num 1]"
    by code_simp
  have 4: "column_of (snd (clean sample_table sample_store)) cleaned_table ''Survived''
       = Some [Num 0, Num 1]"
    unfolding clean_sample by code_simp
  from 1 labels[unfolded d] 2 rows[unfolded d] 3 4 show ?thesis
    by (intro conjI)
qed

text \<open>
  The claim C6 as it was stated, for every tabular input: a table with the fields of the
  passenger record (identifier, name, sex, age, fare, port, class, the two counts,
  survived) and no Ticket or Cabin column. \<open>clean\<close> raises KeyError and returns no
  table.
\<close>

theorem clean_drops_columns_counterexample:
  "wf_frame
     [[Num 1], [Str ''Braund''], [Str ''male''], [Num 22], [Num 7], [Str ''S''], [Num 3],
      [Num 1], [Num 0], [Num 0]]
     \<lparr>n_rows = 1,
      columns = [(''PassengerId'', 0), (''Name'', 1), (''Sex'', 2), (''Age'', 3), (''Fare'', 4),
                 (''Embarked'', 5), (''Pclass'', 6), (''SibSp'', 7), (''Parch'', 8),
                 (''Survived'', 9)]\<rparr>
   \<and> clean
       \<lparr>n_rows = 1,
        columns = [(''PassengerId'', 0), (''Name'', 1), (''Sex'', 2), (''Age'', 3), (''Fare'', 4),
                   (''Embarked'', 5), (''Pclass'', 6), (''SibSp'', 7), (''Parch'', 8),
                   (''Survived'', 9)]\<rparr>
       [[Num 1], [Str ''Braund''], [Str ''male''], [Num 22], [Num 7], [Str ''S''], [Num 3],
        [Num 1], [Num 0], [Num 0]]
     = (Inl KeyError,
        [[Num 1], [Str ''Braund''], [Str ''male''], [Num 22], [Num 7], [Str ''S''], [Num 3],
         [Num 1], [Num 0], [Num 0]])"
  by code_simp

text \<open>
  C7. Whatever the table, and whether \<open>clean\<close> returns or raises, every array that was
  in the store before the call is unchanged after it, so the caller's table holds what
  it held; the table returned shares no array with the store before the call.
\<close>

theorem clean_leaves_input_unchanged:
  "take (length st) (snd (clean data st)) = st
   \<and> (wf_frame st data \<longrightarrow> table_of (snd (clean data st)) data = table_of st data)
   \<and> (\<forall>data'. fst (clean data st) = Inr data' \<longrightarrow>
         list_all (\<lambda>(label, a). length st \<le> a) (columns data'))"
proof (intro conjI impI allI)
  show "take (length st) (snd (clean data st)) = st"
    by (rule clean_store_prefix)
  show "table_of (snd (clean data st)) data = table_of st data" if "wf_frame st data"
    using that clean_store_prefix by (rule table_of_prefix)
  show "list_all (\<lambda>(label, a). length st \<le> a) (columns data')"
    if "fst (clean data st) = Inr data'" for data'
  proof -
    from that have "clean data st = (Inr data', snd (clean data st))"
      by (metis prod.collapse)
    from clean_result_frame[OF this] obtain st1 where
      "frame_drop droppable_columns data st = (Inr data', st1)" ..
    then show ?thesis
      by (rule frame_drop_fresh(2)) simp
  qed
qed

theorem clean_leaves_input_unchanged_witness:
  "take (length sample_store) (snd (clean sample_table sample_store)) = sample_store
   \<and> table_of (snd (clean sample_table sample_store)) sample_table
       = table_of sample_store sample_table
   \<and> list_all (\<lambda>(label, a). length sample_store \<le> a) (columns cleaned_table)
   \<and> column_of sample_store sample_table ''Age'' = Some [Num 22, NaN]
   \<and> column_of (snd (clean sample_table sample_store)) cleaned_table ''Age''
       = Some [Num 22, Num 22]"
proof -
  have "column_of (snd (clean sample_table sample_store)) cleaned_table ''Age''
       = Some [Num 22, Num 22]"
    unfolding clean_sample by code_simp
  then show ?thesis
    using clean_leaves_input_unchanged[of sample_store sample_table]
    by (simp add: sample_hyps clean_sample)
qed

end
